(* ===== verification/Prelude.thy ===== *)
theory Prelude
  imports Complex_Main "HOL-Library.Sublist" "HOL-Library.While_Combinator"
begin
text \<open>
  Shared vocabulary of the development: the types that name the values the
  page script of \<^verbatim>\<open>src/app/html/index.js\<close> passes around (keysyms, mouse
  buttons, timer handles, JavaScript numbers), the payloads of the outbound
  socket channel that both the input controller and the page emit on, the
  collections of operation definitions the component proofs unfold, and
  generic lemmas on lists and maps that the components share.
\<close>


section \<open>Definitions\<close>

named_theorems handler_defs
  "definitions of the input controller's handlers and methods"
named_theorems lifecycle_defs
  "definitions of the stream-session operations"

type_synonym keysym = int
type_synonym button = int
type_synonym timer_id = nat

subsection \<open>JavaScript numbers\<close>

text \<open>
  A JavaScript number produced by the code is either finite or one of the
  IEEE special values. The code only divides integer pixel offsets by integer
  element sizes, so the finite values are rationals; division by zero gives
  an infinity or NaN, never an exception.
\<close>

datatype jsnum = JFin rat | JPosInf | JNegInf | JNaN

definition js_div :: "int \<Rightarrow> int \<Rightarrow> jsnum" where
  "js_div a b =
     (if b \<noteq> 0 then JFin (of_int a / of_int b)
      else if 0 < a then JPosInf
      else if a < 0 then JNegInf
      else JNaN)"

definition js_unit_interval :: "jsnum \<Rightarrow> bool" where
  "js_unit_interval v = (case v of JFin r \<Rightarrow> 0 \<le> r \<and> r \<le> 1 | _ \<Rightarrow> False)"

subsection \<open>The outbound socket channel\<close>

text \<open>
  \<^verbatim>\<open>socket.emit(name, payload)\<close> as the page script calls it (spec section 6):
  one constructor per event name, with its payload. The channel is
  append-only; a component's effect on it is the list of emissions it adds.
\<close>

datatype emission =
    Emit_mousemove jsnum jsnum
  | Emit_mousedown button
  | Emit_mouseup button
  | Emit_scroll bool
  | Emit_keydown keysym
  | Emit_keyup keysym
  | Emit_type string
  | Emit_toggleControls

subsection \<open>Lists\<close>

text \<open>Removing the element at a position, as settling one of several pending promises does.\<close>

definition drop_nth :: "nat \<Rightarrow> 'a list \<Rightarrow> 'a list" where
  "drop_nth i xs = take i xs @ drop (Suc i) xs"

text \<open>
  \<^verbatim>\<open>addEventListener\<close> and \<^verbatim>\<open>removeEventListener\<close> on one element: registering
  the same listener function twice has no effect (the DOM keeps one entry),
  removing an absent one is a no-op.
\<close>

definition add_listener :: "'a \<Rightarrow> 'a list \<Rightarrow> 'a list" where
  "add_listener l ls = (if l \<in> set ls then ls else ls @ [l])"

definition remove_listener :: "'a \<Rightarrow> 'a list \<Rightarrow> 'a list" where
  "remove_listener l ls = removeAll l ls"

subsection \<open>Maps\<close>

text \<open>A JavaScript object used as a set of keys holding \<^verbatim>\<open>true\<close>.\<close>

definition true_keys :: "('k \<rightharpoonup> bool) \<Rightarrow> bool" where
  "true_keys m = (ran m \<subseteq> {True})"

section \<open>Lemmas\<close>

subsection \<open>JavaScript numbers\<close>

lemma js_div_nonzero [simp]: "b \<noteq> 0 \<Longrightarrow> js_div a b = JFin (of_int a / of_int b)"
  by (simp add: js_div_def)

lemma js_div_zero [simp]:
  "js_div a 0 = (if 0 < a then JPosInf else if a < 0 then JNegInf else JNaN)"
  by (simp add: js_div_def)

lemma js_div_unit_interval:
  assumes "0 < b" and "0 \<le> a" and "a \<le> b"
  shows "js_unit_interval (js_div a b)"
proof -
  from assms have "of_int a / of_int b \<le> (1::rat)"
    by (simp add: divide_le_eq_1)
  with assms show ?thesis
    by (simp add: js_unit_interval_def)
qed

subsection \<open>Lists\<close>

lemma length_drop_nth [simp]: "i < length xs \<Longrightarrow> length (drop_nth i xs) = length xs - 1"
  by (simp add: drop_nth_def)

lemma drop_nth_append_last [simp]: "drop_nth (length xs) (xs @ [x]) = xs"
  by (simp add: drop_nth_def)

lemma set_drop_nth_subset: "set (drop_nth i xs) \<subseteq> set xs"
  by (auto simp: drop_nth_def dest: in_set_takeD in_set_dropD)

lemma set_add_listener [simp]: "set (add_listener l ls) = insert l (set ls)"
  by (auto simp: add_listener_def)

lemma distinct_add_listener [simp]: "distinct (add_listener l ls) = distinct ls"
  by (simp add: add_listener_def)

lemma set_remove_listener [simp]: "set (remove_listener l ls) = set ls - {l}"
  by (simp add: remove_listener_def)

lemma distinct_remove_listener [intro]: "distinct ls \<Longrightarrow> distinct (remove_listener l ls)"
  by (simp add: remove_listener_def distinct_removeAll)

lemma count_list_distinct:
  "distinct xs \<Longrightarrow> count_list xs x = (if x \<in> set xs then 1 else 0)"
  by (induction xs) auto

text \<open>A projection that every application of \<open>h\<close> keeps is kept by any number of them.\<close>

lemma funpow_preserves: "(\<And>s. f (h s) = f s) \<Longrightarrow> f ((h ^^ n) s) = f s"
  by (induction n) auto

text \<open>Updating one element of a list, as seen through a filter.\<close>

lemma filter_list_update_other:
  "\<not> P (xs ! i) \<Longrightarrow> \<not> P v \<Longrightarrow> filter P (xs[i := v]) = filter P xs"
  by (induction xs arbitrary: i) (auto split: nat.splits)

lemma length_filter_list_update:
  "P (xs ! i) = P v \<Longrightarrow> length (filter P (xs[i := v])) = length (filter P xs)"
  by (induction xs arbitrary: i) (auto split: nat.splits)

lemma map_update_same: "f x = f (xs ! i) \<Longrightarrow> map f (xs[i := x]) = map f xs"
  by (induction xs arbitrary: i) (auto split: nat.split)

subsection \<open>Counting loops\<close>

text \<open>
  \<^verbatim>\<open>for (let i = lo; i < n; i++) body\<close> as \<open>while_option\<close> over the counter
  and the loop's state: it ends, after \<open>n - lo\<close> rounds, with the body folded
  over the counter's values.
\<close>

lemma while_option_count:
  "i \<le> n \<Longrightarrow>
     while_option (\<lambda>(i, a). i < n) (\<lambda>(i, a). (Suc i, f i a)) (i, a) =
       Some (n, foldl (\<lambda>a j. f j a) a [i..<n])"
proof (induction "n - i" arbitrary: i a)
  case 0
  then show ?case by (simp add: while_option_unfold [of _ _ "(i, a)"])
next
  case (Suc k)
  then have "i < n" by simp
  moreover have "[i..<n] = i # [Suc i..<n]" using \<open>i < n\<close> by (simp add: upt_conv_Cons)
  ultimately show ?case
    using Suc.hyps(1) [of "Suc i" "f i a"] Suc.hyps(2)
    by (simp add: while_option_unfold [of _ _ "(i, a)"])
qed

lemma while_count:
  "i \<le> n \<Longrightarrow>
     while (\<lambda>(i, a). i < n) (\<lambda>(i, a). (Suc i, f i a)) (i, a) = (n, foldl (\<lambda>a j. f j a) a [i..<n])"
  by (simp add: while_def while_option_count)

subsection \<open>Maps\<close>

lemma true_keys_empty [simp]: "true_keys Map.empty"
  by (simp add: true_keys_def)

lemma true_keys_set [intro]: "true_keys m \<Longrightarrow> true_keys (m(k \<mapsto> True))"
  by (auto simp: true_keys_def ran_def)

lemma true_keys_del [intro]: "true_keys m \<Longrightarrow> true_keys (m(k := None))"
  by (auto simp: true_keys_def ran_def split: if_splits)

end
