(* ===== verification/JsBuiltins.thy ===== *)
theory JsBuiltins
  imports Prelude
begin
text \<open>
  The JavaScript string operations the page script calls, as executable
  functions on \<^typ>\<open>string\<close>: \<^verbatim>\<open>includes\<close>, \<^verbatim>\<open>indexOf\<close> and
  \<^verbatim>\<open>replace\<close> with a string pattern (stream matching and the SDP rewrite of
  \<^verbatim>\<open>startJanus\<close>), \<^verbatim>\<open>toLowerCase\<close>, \<^verbatim>\<open>split\<close> and \<^verbatim>\<open>join\<close> with a
  one-character separator (query parsing), \<^verbatim>\<open>Number\<close> applied to a string
  (the volume parameter), and the decimal printing of an integer (string
  concatenation with a number). Each is related to the library's
  declarative notion: \<^const>\<open>sublist\<close> for substring search, the
  first-occurrence decomposition for \<^verbatim>\<open>replace\<close>, the split/join round trips
  in both directions.
  Strings are byte lists; \<^verbatim>\<open>toLowerCase\<close> is modelled on ASCII letters.
\<close>


section \<open>Definitions\<close>

subsection \<open>Substring search\<close>

fun js_startsWith :: "string \<Rightarrow> string \<Rightarrow> bool" where
  "js_startsWith s [] = True"
| "js_startsWith [] (c # cs) = False"
| "js_startsWith (d # ds) (c # cs) = (d = c \<and> js_startsWith ds cs)"

text \<open>\<^verbatim>\<open>s.includes(n)\<close>: try every start position from the left.\<close>

fun js_includes :: "string \<Rightarrow> string \<Rightarrow> bool" where
  "js_includes [] n = (n = [])"
| "js_includes (c # cs) n = (js_startsWith (c # cs) n \<or> js_includes cs n)"

text \<open>\<^verbatim>\<open>s.indexOf(n)\<close>: the first start position, or -1.\<close>

fun js_indexOf_from :: "string \<Rightarrow> string \<Rightarrow> nat \<Rightarrow> int" where
  "js_indexOf_from [] n k = (if n = [] then int k else -1)"
| "js_indexOf_from (c # cs) n k =
     (if js_startsWith (c # cs) n then int k else js_indexOf_from cs n (Suc k))"

definition js_indexOf :: "string \<Rightarrow> string \<Rightarrow> int" where
  "js_indexOf s n = js_indexOf_from s n 0"

text \<open>
  \<^verbatim>\<open>s.replace(p, r)\<close> with a string pattern replaces the first occurrence
  only. The replacement strings of the code contain no \<^verbatim>\<open>$\<close>, so the
  replacement patterns of \<^verbatim>\<open>replace\<close> play no part.
\<close>

fun js_replace :: "string \<Rightarrow> string \<Rightarrow> string \<Rightarrow> string" where
  "js_replace [] p r = (if p = [] then r else [])"
| "js_replace (c # cs) p r =
     (if js_startsWith (c # cs) p then r @ drop (length p) (c # cs)
      else c # js_replace cs p r)"

subsection \<open>Case conversion\<close>

definition js_lower_char :: "char \<Rightarrow> char" where
  "js_lower_char c =
     (let n = (of_char c :: nat) in if 65 \<le> n \<and> n \<le> 90 then char_of (n + 32) else c)"

definition js_toLowerCase :: "string \<Rightarrow> string" where
  "js_toLowerCase s = map js_lower_char s"

subsection \<open>Split and join on one character\<close>

text \<open>
  \<^verbatim>\<open>s.split(d)\<close>: the pieces between separators, empty pieces kept; the empty
  string splits into one empty piece.
\<close>

fun js_split :: "char \<Rightarrow> string \<Rightarrow> string list" where
  "js_split d [] = [[]]"
| "js_split d (c # cs) =
     (if c = d then [] # js_split d cs
      else (case js_split d cs of [] \<Rightarrow> [[c]] | w # ws \<Rightarrow> (c # w) # ws))"

fun js_join :: "char \<Rightarrow> string list \<Rightarrow> string" where
  "js_join d [] = []"
| "js_join d [w] = w"
| "js_join d (w # v # ws) = w @ d # js_join d (v # ws)"

subsection \<open>Number(string)\<close>

text \<open>
  \<^verbatim>\<open>Number(s)\<close> for a string: surrounding white space is ignored, the empty
  string is 0, a decimal literal (optional sign, digits with an optional
  fraction, optional exponent) or \<^verbatim>\<open>Infinity\<close> is read as such, an unsigned
  \<^verbatim>\<open>0x\<close>/\<^verbatim>\<open>0o\<close>/\<^verbatim>\<open>0b\<close> literal in its base, anything else is NaN.
  Values are exact rationals (JavaScript rounds them to the nearest double).
  Only ASCII white space is modelled.
\<close>

definition js_ws :: "char \<Rightarrow> bool" where
  "js_ws c = (c \<in> set [CHR '' '', CHR 0x09, CHR 0x0A, CHR 0x0B, CHR 0x0C, CHR 0x0D])"

definition js_trim :: "string \<Rightarrow> string" where
  "js_trim s = rev (dropWhile js_ws (rev (dropWhile js_ws s)))"

definition digit_in :: "nat \<Rightarrow> char \<Rightarrow> nat option" where
  "digit_in base c =
     (let n = (of_char c :: nat);
          v = (if 48 \<le> n \<and> n \<le> 57 then n - 48
               else if 97 \<le> n \<and> n \<le> 122 then n - 87
               else if 65 \<le> n \<and> n \<le> 90 then n - 55 else base)
      in if v < base then Some v else None)"

definition is_digit :: "char \<Rightarrow> bool" where
  "is_digit c = (digit_in 10 c \<noteq> None)"

fun digits_value :: "nat \<Rightarrow> nat \<Rightarrow> string \<Rightarrow> nat option" where
  "digits_value base acc [] = Some acc"
| "digits_value base acc (c # cs) =
     (case digit_in base c of None \<Rightarrow> None | Some v \<Rightarrow> digits_value base (base * acc + v) cs)"

definition parse_exp :: "string \<Rightarrow> int option" where
  "parse_exp r =
     (if r = [] then Some 0
      else if hd r = CHR ''e'' \<or> hd r = CHR ''E'' then
        (let t = tl r;
             (sg, ds) = (if t \<noteq> [] \<and> hd t = CHR ''+'' then (1::int, tl t)
                         else if t \<noteq> [] \<and> hd t = CHR ''-'' then (-1, tl t) else (1, t))
         in if ds = [] then None else map_option (\<lambda>n. sg * int n) (digits_value 10 0 ds))
      else None)"

definition parse_decimal :: "string \<Rightarrow> rat option" where
  "parse_decimal s =
     (let ip = takeWhile is_digit s; r1 = dropWhile is_digit s;
          (fp, r2) = (if r1 \<noteq> [] \<and> hd r1 = CHR ''.''
                      then (takeWhile is_digit (tl r1), dropWhile is_digit (tl r1)) else ([], r1))
      in if ip = [] \<and> fp = [] then None
         else (case (digits_value 10 0 (ip @ fp), parse_exp r2) of
                 (Some m, Some e) \<Rightarrow>
                   Some (of_nat m / 10 ^ length fp *
                         (if 0 \<le> e then 10 ^ nat e else 1 / 10 ^ nat (- e)))
               | _ \<Rightarrow> None))"

definition parse_radix :: "string \<Rightarrow> nat option" where
  "parse_radix s =
     (case s of
        c0 # c1 # ds \<Rightarrow>
          (if c0 = CHR ''0'' \<and> ds \<noteq> [] then
             (if c1 = CHR ''x'' \<or> c1 = CHR ''X'' then digits_value 16 0 ds
              else if c1 = CHR ''o'' \<or> c1 = CHR ''O'' then digits_value 8 0 ds
              else if c1 = CHR ''b'' \<or> c1 = CHR ''B'' then digits_value 2 0 ds
              else None)
           else None)
      | _ \<Rightarrow> None)"

definition js_Number :: "string \<Rightarrow> jsnum" where
  "js_Number str =
     (let t = js_trim str in
      if t = [] then JFin 0
      else (case parse_radix t of
              Some n \<Rightarrow> JFin (of_nat n)
            | None \<Rightarrow>
                (let (sg, body) = (if hd t = CHR ''-'' then (-1::int, tl t)
                                   else if hd t = CHR ''+'' then (1, tl t) else (1, t))
                 in if body = ''Infinity'' then (if sg < 0 then JNegInf else JPosInf)
                    else (case parse_decimal body of
                            Some r \<Rightarrow> JFin (of_int sg * r)
                          | None \<Rightarrow> JNaN))))"

subsection \<open>Printing integers\<close>

fun nat_digits :: "nat \<Rightarrow> string" where
  "nat_digits n =
     (if n < 10 then [char_of (48 + n)] else nat_digits (n div 10) @ [char_of (48 + n mod 10)])"

declare nat_digits.simps [simp del]

text \<open>\<^verbatim>\<open>n + " "\<close> for an integral number \<^verbatim>\<open>n\<close>.\<close>

definition js_int_toString :: "int \<Rightarrow> string" where
  "js_int_toString i =
     (if i < 0 then CHR ''-'' # nat_digits (nat (- i)) else nat_digits (nat i))"

section \<open>Lemmas\<close>

subsection \<open>Substring search\<close>

lemma js_startsWith_prefix [simp]: "js_startsWith s n = prefix n s"
  by (induction s n rule: js_startsWith.induct) auto

lemma js_includes_sublist [simp]: "js_includes s n = sublist n s"
  by (induction s) (auto simp: sublist_Cons_right)

lemma js_indexOf_from_ge: "js_indexOf_from s n k \<noteq> -1 \<Longrightarrow> int k \<le> js_indexOf_from s n k"
  by (induction s arbitrary: k) (fastforce split: if_splits)+

lemma js_indexOf_from_found: "(js_indexOf_from s n k \<noteq> -1) = sublist n s"
  by (induction s arbitrary: k) (auto simp: sublist_Cons_right)

lemma js_indexOf_found: "(js_indexOf s n \<noteq> -1) = sublist n s"
  by (simp add: js_indexOf_def js_indexOf_from_found)

lemma js_replace_absent: "\<not> sublist p s \<Longrightarrow> js_replace s p r = s"
  by (induction s) (auto simp: sublist_Cons_right split: if_splits)

text \<open>
  \<^verbatim>\<open>replace\<close> rewrites the leftmost occurrence: the text before it contains no
  occurrence that starts earlier.
\<close>

lemma js_replace_first:
  assumes "sublist p s"
  shows "\<exists>a b. s = a @ p @ b \<and> js_replace s p r = a @ r @ b \<and>
           (\<forall>a' b'. s = a' @ p @ b' \<longrightarrow> length a \<le> length a')"
  using assms
proof (induction s)
  case Nil
  then show ?case by simp
next
  case (Cons c cs)
  show ?case
  proof (cases "prefix p (c # cs)")
    case True
    then obtain b where b: "c # cs = p @ b" by (auto simp: prefix_def)
    from True have "js_replace (c # cs) p r = r @ drop (length p) (c # cs)" by simp
    also have "\<dots> = r @ b" by (simp add: b)
    finally have "js_replace (c # cs) p r = r @ b" .
    with b show ?thesis by (intro exI[of _ "[]"] exI[of _ b]) simp
  next
    case False
    with Cons.prems have "sublist p cs" by (simp add: sublist_Cons_right)
    with Cons.IH obtain a b where ab: "cs = a @ p @ b" "js_replace cs p r = a @ r @ b"
        and least: "\<forall>a' b'. cs = a' @ p @ b' \<longrightarrow> length a \<le> length a'" by blast
    have "\<forall>a' b'. c # cs = a' @ p @ b' \<longrightarrow> length (c # a) \<le> length a'"
    proof (intro allI impI)
      fix a' b' assume eq: "c # cs = a' @ p @ b'"
      with False have "a' \<noteq> []" by (auto simp: prefix_def)
      with eq obtain a'' where "a' = c # a''" "cs = a'' @ p @ b'" by (cases a') auto
      with least show "length (c # a) \<le> length a'" by fastforce
    qed
    with ab False show ?thesis by (intro exI[of _ "c # a"] exI[of _ b]) simp
  qed
qed

lemma sublist_js_replace:
  assumes "sublist p s"
  shows "sublist r (js_replace s p r)"
  using js_replace_first [OF assms, of r] by auto

subsection \<open>Case conversion\<close>

lemma length_js_toLowerCase [simp]: "length (js_toLowerCase s) = length s"
  by (simp add: js_toLowerCase_def)

lemma js_lower_char_idem [simp]: "js_lower_char (js_lower_char c) = js_lower_char c"
proof (cases "65 \<le> (of_char c :: nat) \<and> (of_char c :: nat) \<le> 90")
  case True
  then have "(of_char c + 32 :: nat) mod 256 = of_char c + 32" by simp
  with True show ?thesis by (simp add: js_lower_char_def Let_def)
next
  case False
  then show ?thesis by (auto simp add: js_lower_char_def Let_def)
qed

lemma js_toLowerCase_idem [simp]: "js_toLowerCase (js_toLowerCase s) = js_toLowerCase s"
  by (simp add: js_toLowerCase_def)

subsection \<open>Split and join on one character\<close>

lemma js_split_nonempty [simp]: "js_split d s \<noteq> []"
  by (induction s) (auto split: list.splits)

lemma js_join_split: "js_join d (js_split d s) = s"
proof (induction s)
  case Nil
  then show ?case by simp
next
  case (Cons c cs)
  show ?case
  proof (cases "c = d")
    case True
    with Cons.IH show ?thesis by (cases "js_split d cs") auto
  next
    case False
    obtain w ws where "js_split d cs = w # ws"
      using js_split_nonempty by (metis list.exhaust)
    with Cons.IH False show ?thesis by (cases ws) auto
  qed
qed

lemma js_split_no_sep: "d \<notin> set s \<Longrightarrow> js_split d s = [s]"
  by (induction s) auto

lemma js_split_pieces: "w \<in> set (js_split d s) \<Longrightarrow> d \<notin> set w"
proof (induction s arbitrary: w)
  case Nil
  then show ?case by simp
next
  case (Cons c cs)
  then show ?case
    by (cases "js_split d cs") (fastforce split: if_splits)+
qed

lemma js_split_append_sep:
  "d \<notin> set a \<Longrightarrow> js_split d (a @ d # b) = a # js_split d b"
  by (induction a) auto

lemma js_split_join:
  "ws \<noteq> [] \<Longrightarrow> \<forall>w \<in> set ws. d \<notin> set w \<Longrightarrow> js_split d (js_join d ws) = ws"
proof (induction d ws rule: js_join.induct)
  case (1 d)
  then show ?case by simp
next
  case (2 d w)
  then show ?case by (simp add: js_split_no_sep)
next
  case (3 d w v ws)
  then show ?case by (simp add: js_split_append_sep)
qed

subsection \<open>Printing integers\<close>

lemma nat_digits_nonempty [simp]: "nat_digits n \<noteq> []"
  by (subst nat_digits.simps) simp

end
