(* ===== verification/InputController.thy ===== *)
theory InputController
  imports Prelude
begin
text \<open>
  The class \<^verbatim>\<open>StreamInputController\<close> of \<^verbatim>\<open>src/app/html/index.js\<close> (lines
  3--110). The object's fields are the record \<open>controller\<close>; the parts of
  the browser it changes (listener registrations on the stream element,
  running interval timers, pending clipboard reads, the socket's outbound
  log) extend it to \<open>ctrl_world\<close>. Each handler and method is one
  definition over the extensible record, so the page can add its own fields.
  A native event reaches a handler once per registration of that handler on
  the element, as DOM dispatch does; \<open>ctrl_step\<close> is the browser delivering
  one event, \<open>ctrl_run\<close> a sequence of them.
\<close>


section \<open>Definitions\<close>

datatype listener = L_mousemove | L_mousedown | L_mouseup | L_wheel

text \<open>A \<^verbatim>\<open>navigator.clipboard.readText()\<close> promise: the permission probe of
  \<^verbatim>\<open>start\<close> (result discarded) or the read of a paste interception.\<close>

datatype clip_read = Probe_read | Paste_read

record controller =
  intervals :: "timer_id list"
  keysDown :: "keysym \<rightharpoonup> bool"
  active :: bool
  mouseMovePacket :: "(jsnum \<times> jsnum) option"
  onkeydown_set :: bool
  onkeyup_set :: bool

record ctrl_world = controller +
  listeners :: "listener list"
  timers :: "timer_id set"
  next_timer :: timer_id
  clipboard_api :: bool
  clip_reads :: "clip_read list"
  outbox :: "emission list"

abbreviation CTRL :: keysym where "CTRL \<equiv> 65507"

definition is_paste_key :: "keysym \<Rightarrow> bool" where
  "is_paste_key k = (k = 118 \<or> k = 86)"

text \<open>The constructor (lines 14--19) on a fresh page: nothing registered.\<close>

definition new_controller :: "bool \<Rightarrow> ctrl_world" where
  "new_controller api =
     \<lparr>intervals = [], keysDown = Map.empty, active = False, mouseMovePacket = None,
      onkeydown_set = False, onkeyup_set = False,
      listeners = [], timers = {}, next_timer = 0, clipboard_api = api,
      clip_reads = [], outbox = []\<rparr>"

definition emit :: "emission \<Rightarrow> 'a ctrl_world_scheme \<Rightarrow> 'a ctrl_world_scheme" where
  "emit e s = s\<lparr>outbox := outbox s @ [e]\<rparr>"

subsection \<open>Handlers\<close>

definition mousemove :: "int \<Rightarrow> int \<Rightarrow> int \<Rightarrow> int \<Rightarrow> 'a ctrl_world_scheme \<Rightarrow> 'a ctrl_world_scheme" where
  [handler_defs]: "mousemove layerX layerY clientWidth clientHeight s =
     s\<lparr>mouseMovePacket := Some (js_div layerX clientWidth, js_div layerY clientHeight)\<rparr>"

definition mousedown :: "button \<Rightarrow> 'a ctrl_world_scheme \<Rightarrow> 'a ctrl_world_scheme" where
  [handler_defs]: "mousedown b s = emit (Emit_mousedown b) s"

definition mouseup :: "button \<Rightarrow> 'a ctrl_world_scheme \<Rightarrow> 'a ctrl_world_scheme" where
  [handler_defs]: "mouseup b s = emit (Emit_mouseup b) s"

definition wheel :: "rat \<Rightarrow> 'a ctrl_world_scheme \<Rightarrow> 'a ctrl_world_scheme" where
  [handler_defs]: "wheel deltaY s = emit (Emit_scroll (deltaY < 0)) s"

text \<open>The 30 Hz interval callback created by \<^verbatim>\<open>start\<close> (lines 52--56).\<close>

definition interval_tick :: "'a ctrl_world_scheme \<Rightarrow> 'a ctrl_world_scheme" where
  [handler_defs]: "interval_tick s =
     (case mouseMovePacket s of
        None \<Rightarrow> s
      | Some (x, y) \<Rightarrow> (emit (Emit_mousemove x y) s)\<lparr>mouseMovePacket := None\<rparr>)"

text \<open>\<^verbatim>\<open>if (navigator.clipboard && navigator.clipboard.readText) readText()\<close>.\<close>

definition read_clipboard :: "clip_read \<Rightarrow> 'a ctrl_world_scheme \<Rightarrow> 'a ctrl_world_scheme" where
  [handler_defs]: "read_clipboard r s =
     (if clipboard_api s then s\<lparr>clip_reads := clip_reads s @ [r]\<rparr> else s)"

text \<open>The closures installed as \<^verbatim>\<open>guacamoleKeyboard.onkeydown/onkeyup\<close> (lines 67--89).\<close>

definition onkeydown :: "keysym \<Rightarrow> 'a ctrl_world_scheme \<Rightarrow> 'a ctrl_world_scheme" where
  [handler_defs]: "onkeydown k s =
     (let s1 = s\<lparr>keysDown := (keysDown s)(k \<mapsto> True)\<rparr> in
      if keysDown s1 CTRL = Some True \<and> is_paste_key k then read_clipboard Paste_read s1
      else emit (Emit_keydown k) s1)"

definition onkeyup :: "keysym \<Rightarrow> 'a ctrl_world_scheme \<Rightarrow> 'a ctrl_world_scheme" where
  [handler_defs]: "onkeyup k s = emit (Emit_keyup k) (s\<lparr>keysDown := (keysDown s)(k := None)\<rparr>)"

text \<open>
  Settling the \<open>i\<close>-th pending read: \<open>Some text\<close> fulfils it, \<open>None\<close> rejects
  it. Only a paste read has a continuation (\<^verbatim>\<open>.then\<close> of lines 77--80); the
  rejection handler of line 81 and the probe do nothing.
\<close>

definition clipboard_settle :: "nat \<Rightarrow> string option \<Rightarrow> 'a ctrl_world_scheme \<Rightarrow> 'a ctrl_world_scheme" where
  [handler_defs]: "clipboard_settle i r s =
     (if i < length (clip_reads s) then
        (let s1 = s\<lparr>clip_reads := drop_nth i (clip_reads s)\<rparr> in
         case (clip_reads s ! i, r) of
           (Paste_read, Some text) \<Rightarrow> emit (Emit_type text) (emit (Emit_keyup CTRL) s1)
         | _ \<Rightarrow> s1)
      else s)"

subsection \<open>start and stop\<close>

definition add_handlers :: "listener list \<Rightarrow> listener list" where
  "add_handlers ls =
     add_listener L_wheel (add_listener L_mouseup (add_listener L_mousedown (add_listener L_mousemove ls)))"

definition remove_handlers :: "listener list \<Rightarrow> listener list" where
  "remove_handlers ls =
     remove_listener L_wheel (remove_listener L_mouseup
       (remove_listener L_mousedown (remove_listener L_mousemove ls)))"

definition start :: "'a ctrl_world_scheme \<Rightarrow> 'a ctrl_world_scheme" where
  [handler_defs]: "start s =
     (if active s then s else
      let t = next_timer s;
          s1 = s\<lparr>active := True, intervals := intervals s @ [t],
                 timers := insert t (timers s), next_timer := Suc t\<rparr>;
          s2 = s1\<lparr>listeners := add_handlers (listeners s1)\<rparr>;
          s3 = read_clipboard Probe_read s2
      in s3\<lparr>onkeydown_set := True, onkeyup_set := True\<rparr>)"

definition stop :: "'a ctrl_world_scheme \<Rightarrow> 'a ctrl_world_scheme" where
  [handler_defs]: "stop s =
     (if \<not> active s then s else
      s\<lparr>active := False, timers := timers s - set (intervals s),
        listeners := remove_handlers (listeners s),
        onkeydown_set := False, onkeyup_set := False, keysDown := Map.empty\<rparr>)"

subsection \<open>Event delivery\<close>

datatype ctrl_event =
    Dom_mousemove int int int int
  | Dom_mousedown button
  | Dom_mouseup button
  | Dom_wheel rat
  | Guac_keydown keysym
  | Guac_keyup keysym
  | Interval_fires timer_id
  | Clipboard_settles nat "string option"
  | Call_start
  | Call_stop

text \<open>A DOM event runs its handler once for each registration on the element.\<close>

definition dispatch :: "listener \<Rightarrow> ('a ctrl_world_scheme \<Rightarrow> 'a ctrl_world_scheme)
                         \<Rightarrow> 'a ctrl_world_scheme \<Rightarrow> 'a ctrl_world_scheme" where
  "dispatch l h s = (h ^^ count_list (listeners s) l) s"

fun ctrl_step :: "'a ctrl_world_scheme \<Rightarrow> ctrl_event \<Rightarrow> 'a ctrl_world_scheme" where
  "ctrl_step s (Dom_mousemove x y w h) = dispatch L_mousemove (mousemove x y w h) s"
| "ctrl_step s (Dom_mousedown b) = dispatch L_mousedown (mousedown b) s"
| "ctrl_step s (Dom_mouseup b) = dispatch L_mouseup (mouseup b) s"
| "ctrl_step s (Dom_wheel d) = dispatch L_wheel (wheel d) s"
| "ctrl_step s (Guac_keydown k) = (if onkeydown_set s then onkeydown k s else s)"
| "ctrl_step s (Guac_keyup k) = (if onkeyup_set s then onkeyup k s else s)"
| "ctrl_step s (Interval_fires t) = (if t \<in> timers s then interval_tick s else s)"
| "ctrl_step s (Clipboard_settles i r) = clipboard_settle i r s"
| "ctrl_step s Call_start = start s"
| "ctrl_step s Call_stop = stop s"

fun ctrl_run :: "'a ctrl_world_scheme \<Rightarrow> ctrl_event list \<Rightarrow> 'a ctrl_world_scheme" where
  "ctrl_run s [] = s"
| "ctrl_run s (e # es) = ctrl_run (ctrl_step s e) es"

inductive ctrl_reachable :: "ctrl_world \<Rightarrow> bool" where
  init: "ctrl_reachable (new_controller api)"
| step: "ctrl_reachable s \<Longrightarrow> ctrl_reachable (ctrl_step s e)"

subsection \<open>The invariant\<close>

text \<open>
  Between events: the controller is active exactly when its four handlers are
  registered once each, its keyboard callbacks are installed, and exactly one
  of its intervals (the last one created) runs; an inactive controller holds no
  keys. Timer handles are fresh.
\<close>

definition all_handlers :: "listener set" where
  "all_handlers = {L_mousemove, L_mousedown, L_mouseup, L_wheel}"

definition ctrl_inv :: "'a ctrl_world_scheme \<Rightarrow> bool" where
  "ctrl_inv s \<longleftrightarrow>
     (if active s
      then set (listeners s) = all_handlers \<and> intervals s \<noteq> [] \<and> timers s = {last (intervals s)}
      else listeners s = [] \<and> timers s = {} \<and> keysDown s = Map.empty) \<and>
     distinct (listeners s) \<and> onkeydown_set s = active s \<and> onkeyup_set s = active s \<and>
     (\<forall>t \<in> set (intervals s). t < next_timer s) \<and> true_keys (keysDown s)"

subsection \<open>Frame lemmas\<close>

text \<open>The fields the invariant reads; the handlers other than the
  keyboard callbacks, \<^verbatim>\<open>start\<close> and \<^verbatim>\<open>stop\<close> leave all of them alone.\<close>

definition ctrl_frame :: "'a ctrl_world_scheme \<Rightarrow>
    bool \<times> listener list \<times> timer_id set \<times> timer_id list \<times> timer_id \<times> bool \<times> bool \<times> (keysym \<rightharpoonup> bool)" where
  "ctrl_frame s = (active s, listeners s, timers s, intervals s, next_timer s,
                   onkeydown_set s, onkeyup_set s, keysDown s)"

subsection \<open>Invariant preservation\<close>

text \<open>A burst of moves while active leaves only the last position pending.\<close>

definition move_event :: "int \<times> int \<times> int \<times> int \<Rightarrow> ctrl_event" where
  "move_event m = (case m of (x, y, w, h) \<Rightarrow> Dom_mousemove x y w h)"

text \<open>Events that an inactive controller ignores: everything the browser
  delivers on its own (pointer, wheel, keys, timers).\<close>

definition native_input :: "ctrl_event \<Rightarrow> bool" where
  "native_input e =
     (case e of Call_start \<Rightarrow> False | Call_stop \<Rightarrow> False | Clipboard_settles _ _ \<Rightarrow> False
              | _ \<Rightarrow> True)"

text \<open>What a discrete input relays on its own, when it is not a paste key.\<close>

fun relay :: "ctrl_event \<Rightarrow> emission option" where
  "relay (Dom_mousedown b) = Some (Emit_mousedown b)"
| "relay (Dom_mouseup b) = Some (Emit_mouseup b)"
| "relay (Dom_wheel d) = Some (Emit_scroll (d < 0))"
| "relay (Guac_keydown k) = (if is_paste_key k then None else Some (Emit_keydown k))"
| "relay (Guac_keyup k) = Some (Emit_keyup k)"
| "relay _ = None"

section \<open>Lemmas\<close>

subsection \<open>Frame lemmas\<close>

lemma ctrl_inv_frame: "ctrl_inv s \<Longrightarrow> ctrl_frame s' = ctrl_frame s \<Longrightarrow> ctrl_inv s'"
  by (simp add: ctrl_frame_def ctrl_inv_def)

lemma handler_frame [simp]:
  "ctrl_frame (emit e s) = ctrl_frame s"
  "ctrl_frame (mousemove x y w h s) = ctrl_frame s"
  "ctrl_frame (mousedown b s) = ctrl_frame s"
  "ctrl_frame (mouseup b s) = ctrl_frame s"
  "ctrl_frame (wheel d s) = ctrl_frame s"
  "ctrl_frame (interval_tick s) = ctrl_frame s"
  "ctrl_frame (read_clipboard r s) = ctrl_frame s"
  "ctrl_frame (clipboard_settle i t s) = ctrl_frame s"
  by (auto simp: ctrl_frame_def emit_def handler_defs Let_def
           split: option.splits clip_read.splits)

lemma dispatch_frame:
  "(\<And>s. ctrl_frame (h s) = ctrl_frame s) \<Longrightarrow> ctrl_frame (dispatch l h s) = ctrl_frame s"
  unfolding dispatch_def by (rule funpow_preserves)

lemma dispatch_handler_frame [simp]:
  "ctrl_frame (dispatch L_mousemove (mousemove x y w h) s) = ctrl_frame s"
  "ctrl_frame (dispatch L_mousedown (mousedown b) s) = ctrl_frame s"
  "ctrl_frame (dispatch L_mouseup (mouseup b) s) = ctrl_frame s"
  "ctrl_frame (dispatch L_wheel (wheel d) s) = ctrl_frame s"
  by (simp_all add: dispatch_frame)

text \<open>Under the invariant a handler runs once when the controller is active, never otherwise.\<close>

lemma dispatch_active:
  "ctrl_inv s \<Longrightarrow> active s \<Longrightarrow> l \<in> all_handlers \<Longrightarrow> dispatch l h s = h s"
  by (simp add: dispatch_def ctrl_inv_def count_list_distinct)

lemma dispatch_inactive:
  "ctrl_inv s \<Longrightarrow> \<not> active s \<Longrightarrow> dispatch l h s = s"
  by (simp add: dispatch_def ctrl_inv_def)

lemma in_all_handlers [simp]:
  "L_mousemove \<in> all_handlers" "L_mousedown \<in> all_handlers"
  "L_mouseup \<in> all_handlers" "L_wheel \<in> all_handlers"
  by (simp_all add: all_handlers_def)

subsection \<open>Invariant preservation\<close>

lemma start_inv: "ctrl_inv s \<Longrightarrow> ctrl_inv (start s)"
  by (auto simp: start_def ctrl_inv_def read_clipboard_def add_handlers_def all_handlers_def
                 Let_def less_SucI)

lemma remove_handlers_all:
  "set ls = all_handlers \<Longrightarrow> remove_handlers ls = []"
proof -
  assume "set ls = all_handlers"
  then have "set (remove_handlers ls) = {}"
    by (simp add: remove_handlers_def all_handlers_def)
  then show ?thesis by simp
qed

lemma stop_inv: "ctrl_inv s \<Longrightarrow> ctrl_inv (stop s)"
  by (auto simp: stop_def ctrl_inv_def remove_handlers_all)

lemma onkeydown_inv: "ctrl_inv s \<Longrightarrow> onkeydown_set s \<Longrightarrow> ctrl_inv (onkeydown k s)"
proof -
  assume inv: "ctrl_inv s" and on: "onkeydown_set s"
  let ?s1 = "s\<lparr>keysDown := (keysDown s)(k \<mapsto> True)\<rparr>"
  from inv on have "ctrl_inv ?s1" by (simp add: ctrl_inv_def true_keys_set)
  moreover have "ctrl_frame (onkeydown k s) = ctrl_frame ?s1"
    by (simp add: onkeydown_def Let_def)
  ultimately show ?thesis by (rule ctrl_inv_frame)
qed

lemma onkeyup_inv: "ctrl_inv s \<Longrightarrow> onkeyup_set s \<Longrightarrow> ctrl_inv (onkeyup k s)"
proof -
  assume inv: "ctrl_inv s" and on: "onkeyup_set s"
  let ?s1 = "s\<lparr>keysDown := (keysDown s)(k := None)\<rparr>"
  from inv on have "ctrl_inv ?s1" by (simp add: ctrl_inv_def true_keys_del)
  moreover have "ctrl_frame (onkeyup k s) = ctrl_frame ?s1"
    by (simp add: onkeyup_def)
  ultimately show ?thesis by (rule ctrl_inv_frame)
qed

lemma ctrl_inv_new [simp]: "ctrl_inv (new_controller api)"
  by (simp add: ctrl_inv_def new_controller_def)

lemma dispatch_inv [simp]:
  "ctrl_inv s \<Longrightarrow> ctrl_inv (dispatch L_mousemove (mousemove x y w h) s)"
  "ctrl_inv s \<Longrightarrow> ctrl_inv (dispatch L_mousedown (mousedown b) s)"
  "ctrl_inv s \<Longrightarrow> ctrl_inv (dispatch L_mouseup (mouseup b) s)"
  "ctrl_inv s \<Longrightarrow> ctrl_inv (dispatch L_wheel (wheel d) s)"
  by (erule ctrl_inv_frame, simp)+

lemma ctrl_step_inv: "ctrl_inv s \<Longrightarrow> ctrl_inv (ctrl_step s e)"
proof (cases e)
  case (Interval_fires t)
  assume "ctrl_inv s"
  then show ?thesis using Interval_fires
    by (cases "t \<in> timers s") (auto elim: ctrl_inv_frame)
next
  case (Clipboard_settles i r)
  assume "ctrl_inv s"
  then show ?thesis using Clipboard_settles by (auto elim: ctrl_inv_frame)
qed (simp_all add: start_inv stop_inv onkeydown_inv onkeyup_inv)

lemma ctrl_run_append [simp]: "ctrl_run s (xs @ ys) = ctrl_run (ctrl_run s xs) ys"
  by (induction xs arbitrary: s) auto

lemma ctrl_run_inv: "ctrl_inv s \<Longrightarrow> ctrl_inv (ctrl_run s es)"
  by (induction es arbitrary: s) (auto simp: ctrl_step_inv)

lemma ctrl_inv_active_handlers:
  "ctrl_inv s \<Longrightarrow> active s \<Longrightarrow> onkeydown_set s \<and> onkeyup_set s \<and> last (intervals s) \<in> timers s"
  by (simp add: ctrl_inv_def)

lemma ctrl_inv_inactive:
  "ctrl_inv s \<Longrightarrow> \<not> active s \<Longrightarrow>
     listeners s = [] \<and> timers s = {} \<and> keysDown s = Map.empty \<and> \<not> onkeydown_set s \<and> \<not> onkeyup_set s"
  by (simp add: ctrl_inv_def)

lemma mousemove_overwrites [simp]:
  "mousemove x y w h (mousemove x' y' w' h' s) = mousemove x y w h s"
  by (simp add: mousemove_def)

lemma active_mousemove [simp]: "active (mousemove x y w h s) = active s"
  using handler_frame(2) [of x y w h s] by (simp add: ctrl_frame_def)

lemma ctrl_inv_mousemove [simp]: "ctrl_inv s \<Longrightarrow> ctrl_inv (mousemove x y w h s)"
  by (erule ctrl_inv_frame) simp

lemma ctrl_run_moves:
  assumes "ms \<noteq> []" "ctrl_inv s" "active s" "last ms = (x, y, w, h)"
  shows "ctrl_run s (map move_event ms) = mousemove x y w h s"
  using assms
proof (induction ms arbitrary: s rule: list_nonempty_induct)
  case (single m)
  then show ?case by (simp add: move_event_def dispatch_active)
next
  case (cons m ms)
  obtain a b c d where m: "m = (a, b, c, d)" by (cases m)
  from cons.prems have "ctrl_step s (move_event m) = mousemove a b c d s"
    by (simp add: m move_event_def dispatch_active)
  moreover from cons.prems cons.hyps
  have "ctrl_run (mousemove a b c d s) (map move_event ms) = mousemove x y w h (mousemove a b c d s)"
    by (intro cons.IH) simp_all
  ultimately show ?case by simp
qed

lemma ctrl_step_inactive:
  "ctrl_inv s \<Longrightarrow> \<not> active s \<Longrightarrow> native_input e \<Longrightarrow> ctrl_step s e = s"
  by (cases e) (simp_all add: native_input_def dispatch_inactive ctrl_inv_inactive)

lemma ctrl_run_inactive:
  "ctrl_inv s \<Longrightarrow> \<not> active s \<Longrightarrow> list_all native_input es \<Longrightarrow> ctrl_run s es = s"
  by (induction es) (simp_all add: ctrl_step_inactive)

lemma ctrl_step_relay:
  assumes "ctrl_inv s" "active s" "relay e = Some c"
  shows "outbox (ctrl_step s e) = outbox s @ [c] \<and> ctrl_inv (ctrl_step s e) \<and> active (ctrl_step s e)"
proof -
  have inv': "ctrl_inv (ctrl_step s e)" using assms(1) by (rule ctrl_step_inv)
  have "outbox (ctrl_step s e) = outbox s @ [c] \<and> active (ctrl_step s e)"
    using assms
    by (cases e) (auto simp: dispatch_active ctrl_inv_active_handlers handler_defs
                              emit_def Let_def is_paste_key_def split: if_splits)
  with inv' show ?thesis by simp
qed

subsection \<open>Properties\<close>

text \<open>
  C1. Every state the browser can drive the controller into, from the
  constructor through any sequence of events, satisfies the invariant: an
  active controller has each of its four handlers registered exactly once,
  its keyboard callbacks installed and exactly one running 30 Hz interval; an
  inactive one has nothing registered, no running interval and no held keys.
\<close>

theorem ctrl_reachable_inv: "ctrl_reachable s \<Longrightarrow> ctrl_inv s"
proof (induction rule: ctrl_reachable.induct)
  case (init api)
  show ?case by simp
next
  case (step s e)
  from step.IH show ?case by (rule ctrl_step_inv)
qed

text \<open>
  C3. Paste interception: while Control (keysym 65507) is held, a key-down of
  \<^verbatim>\<open>v\<close> or \<^verbatim>\<open>V\<close> is not relayed; when the clipboard read it starts is
  fulfilled with text T, the relay receives exactly a key-up of Control followed
  by \<^verbatim>\<open>type T\<close>, and never the key-down itself.
\<close>

theorem paste_intercepted:
  assumes "ctrl_inv s" "active s" "keysDown s CTRL = Some True" "clipboard_api s" "is_paste_key k"
  shows "outbox (ctrl_run s [Guac_keydown k, Clipboard_settles (length (clip_reads s)) (Some T)]) =
           outbox s @ [Emit_keyup CTRL, Emit_type T]"
proof -
  from assms(5) have k: "k \<noteq> CTRL" by (auto simp: is_paste_key_def)
  let ?s1 = "s\<lparr>keysDown := (keysDown s)(k \<mapsto> True), clip_reads := clip_reads s @ [Paste_read]\<rparr>"
  from assms k have "ctrl_step s (Guac_keydown k) = ?s1"
    by (simp add: ctrl_inv_active_handlers onkeydown_def read_clipboard_def)
  then show ?thesis
    by (simp add: clipboard_settle_def emit_def)
qed

text \<open>
  C4. Paste failure: when the clipboard read started by the intercepted
  Control-\<^verbatim>\<open>v\<close> rejects, nothing reaches the relay: neither the key-down nor
  any synthetic event, whichever pending read settles.
\<close>

theorem paste_rejected_silent:
  assumes "ctrl_inv s" "active s" "keysDown s CTRL = Some True" "is_paste_key k"
  shows "outbox (ctrl_run s [Guac_keydown k, Clipboard_settles i None]) = outbox s"
proof -
  have "outbox (clipboard_settle i None t) = outbox t" for t :: "'a ctrl_world_scheme"
    by (auto simp: clipboard_settle_def Let_def split: clip_read.splits)
  moreover from assms have "outbox (ctrl_step s (Guac_keydown k)) = outbox s"
    by (auto simp: ctrl_inv_active_handlers onkeydown_def read_clipboard_def is_paste_key_def Let_def)
  ultimately show ?thesis by simp
qed

lemma ticks_idle:
  "mouseMovePacket s = None \<Longrightarrow> ctrl_run s (replicate n (Interval_fires t)) = s"
  by (induction n) (simp_all add: interval_tick_def)

text \<open>
  C5. Coalescing: of a burst of pointer moves before a firing of the active
  30 Hz interval, only the last position is relayed, and exactly once: the
  firing clears the pending move, so any number of later firings relay
  nothing more.
\<close>

theorem mousemove_coalesced:
  assumes "ctrl_inv s" "active s" "ms \<noteq> []" "last ms = (x, y, w, h)"
  shows "outbox (ctrl_run s (map move_event ms @ replicate (Suc n) (Interval_fires (last (intervals s))))) =
           outbox s @ [Emit_mousemove (js_div x w) (js_div y h)]"
proof -
  define t where "t = last (intervals s)"
  define s2 where "s2 = (emit (Emit_mousemove (js_div x w) (js_div y h)) (mousemove x y w h s))
                          \<lparr>mouseMovePacket := None\<rparr>"
  have run: "ctrl_run s (map move_event ms) = mousemove x y w h s"
    by (rule ctrl_run_moves [OF assms(3) assms(1) assms(2) assms(4)])
  from assms(1,2) have "t \<in> timers s"
    by (simp add: ctrl_inv_active_handlers t_def)
  then have tick: "ctrl_step (mousemove x y w h s) (Interval_fires t) = s2"
    by (simp add: interval_tick_def mousemove_def s2_def)
  have "ctrl_run s2 (replicate n (Interval_fires t)) = s2"
    by (rule ticks_idle) (simp add: s2_def)
  with run tick show ?thesis
    by (simp add: t_def [symmetric] s2_def emit_def mousemove_def)
qed

text \<open>
  C6. Stopping silences the controller: after \<^verbatim>\<open>stop()\<close> no handler is
  registered, no interval runs and no key is held, and no sequence of native
  input events (pointer, wheel, keys, timer firings) relays anything.
\<close>

theorem stop_silences:
  assumes "ctrl_inv s" "list_all native_input es"
  shows "outbox (ctrl_run (stop s) es) = outbox s \<and> listeners (stop s) = [] \<and>
         timers (stop s) = {} \<and> keysDown (stop s) = Map.empty"
proof -
  have inv: "ctrl_inv (stop s)" using assms(1) by (rule stop_inv)
  have off: "\<not> active (stop s)" by (simp add: stop_def)
  have "outbox (stop s) = outbox s" by (simp add: stop_def)
  with inv off assms(2) show ?thesis
    by (simp add: ctrl_run_inactive ctrl_inv_inactive)
qed

text \<open>
  C7. Discrete inputs are relayed one for one, in the order the browser
  delivers them, with no loss: button presses and releases, wheel steps,
  key releases and key presses other than \<^verbatim>\<open>v\<close>/\<^verbatim>\<open>V\<close>.
\<close>

theorem discrete_in_order:
  assumes "ctrl_inv s" "active s" "those (map relay es) = Some cs"
  shows "outbox (ctrl_run s es) = outbox s @ cs"
  using assms
proof (induction es arbitrary: s cs)
  case Nil
  then show ?case by simp
next
  case (Cons e es)
  from Cons.prems(3) obtain c cs' where c: "relay e = Some c"
      and cs': "those (map relay es) = Some cs'" and cs: "cs = c # cs'"
    by (auto split: option.splits)
  from ctrl_step_relay [OF Cons.prems(1,2) c]
  have step: "outbox (ctrl_step s e) = outbox s @ [c]" "ctrl_inv (ctrl_step s e)"
    "active (ctrl_step s e)" by simp_all
  from Cons.IH [OF step(2,3) cs'] step(1) cs show ?case by simp
qed

text \<open>
  C8. \<^verbatim>\<open>start()\<close> is idempotent and registers each handler exactly once:
  after it, each of the four pointer handlers occurs once among the element's
  listeners, and exactly one interval timer runs.
\<close>

theorem start_registers_once:
  assumes "ctrl_inv s"
  shows "start (start s) = start s \<and> distinct (listeners (start s)) \<and>
         set (listeners (start s)) = all_handlers \<and> card (timers (start s)) = 1"
proof -
  have on: "active (start s)" by (simp add: start_def Let_def read_clipboard_def)
  then have "start (start s) = start s" by (simp add: start_def)
  moreover from assms have "ctrl_inv (start s)" by (rule start_inv)
  ultimately show ?thesis using on
    by (simp add: ctrl_inv_def)
qed

text \<open>
  C9. Normalisation: for a pointer inside a non-empty element
  (0 \<le> layerX \<le> clientWidth, 0 \<le> layerY \<le> clientHeight, both sizes positive)
  the pending move holds coordinates in [0, 1] \<times> [0, 1].
\<close>

theorem mousemove_normalised:
  assumes "0 < w" "0 < h" "0 \<le> x" "x \<le> w" "0 \<le> y" "y \<le> h"
  shows "\<exists>a b. mouseMovePacket (mousemove x y w h s) = Some (a, b) \<and>
               js_unit_interval a \<and> js_unit_interval b"
proof -
  from assms have "js_unit_interval (js_div x w)" "js_unit_interval (js_div y h)"
    by (intro js_div_unit_interval; simp)+
  then show ?thesis by (simp add: mousemove_def del: js_div_nonzero)
qed

text \<open>
  C10. The coordinates are not clamped: a pointer position beyond the
  element's client width gives a coordinate above 1, and an element of width
  0 gives an infinite one. The spec's claim that the coordinates always lie
  in [0, 1] holds only under the bounds of C9.
\<close>

theorem mousemove_not_clamped:
  "(0 < w \<and> w < x \<longrightarrow>
      mouseMovePacket (mousemove x y w h s) = Some (JFin (of_int x / of_int w), js_div y h) \<and>
      1 < (of_int x / of_int w :: rat)) \<and>
   (0 < x \<longrightarrow> mouseMovePacket (mousemove x y 0 h s) = Some (JPosInf, js_div y h))"
  by (simp add: mousemove_def)

text \<open>
  C11. A pending pointer move survives \<^verbatim>\<open>stop()\<close>: whatever the state,
  a move still pending when the controller is stopped is relayed by the
  first firing of the interval that the next \<^verbatim>\<open>start()\<close> creates,
  although no pointer event happened in between.
\<close>

theorem stale_move_after_restart:
  assumes "mouseMovePacket s = Some (a, b)"
  shows "let s' = ctrl_run s [Call_stop, Call_start] in
         active s' \<and> outbox (ctrl_step s' (Interval_fires (last (intervals s')))) =
           outbox s @ [Emit_mousemove a b]"
  using assms
  by (simp add: stop_def start_def Let_def read_clipboard_def interval_tick_def emit_def)

text \<open>
  C12. A clipboard read settles after \<^verbatim>\<open>stop()\<close>: whatever the state,
  a paste read still pending when the controller is stopped is relayed when
  it resolves: the stopped controller sends the synthetic Control key-up and
  the text.
\<close>

theorem paste_after_stop_relayed:
  assumes "i < length (clip_reads s)" "clip_reads s ! i = Paste_read"
  shows "\<not> active (stop s) \<and>
         outbox (ctrl_run s [Call_stop, Clipboard_settles i (Some t)]) =
           outbox s @ [Emit_keyup CTRL, Emit_type t]"
  using assms by (simp add: stop_def clipboard_settle_def Let_def emit_def)

text \<open>
  C13. The array \<^verbatim>\<open>intervals\<close> is cleared of running timers by \<^verbatim>\<open>stop()\<close>
  but never emptied: every start/stop cycle leaves one more handle in it.
\<close>

lemma intervals_start_stop:
  "\<not> active s \<Longrightarrow> intervals (stop (start s)) = intervals s @ [next_timer s] \<and>
     \<not> active (stop (start s))"
  by (simp add: start_def stop_def Let_def read_clipboard_def)

theorem intervals_accumulate:
  "\<not> active s \<Longrightarrow>
     length (intervals (ctrl_run s (concat (replicate n [Call_start, Call_stop])))) = length (intervals s) + n"
proof (induction n arbitrary: s)
  case 0
  then show ?case by simp
next
  case (Suc n)
  from Suc.prems have st: "intervals (stop (start s)) = intervals s @ [next_timer s]"
      "\<not> active (stop (start s))"
    by (simp_all add: intervals_start_stop)
  from Suc.IH [OF st(2)] st(1) show ?case by simp
qed

subsection \<open>Witnesses\<close>

lemma ctrl_reachable_inv_witness:
  "ctrl_reachable (ctrl_step (new_controller True) Call_start) \<and>
   ctrl_inv (ctrl_step (new_controller True) Call_start)"
proof -
  have r: "ctrl_reachable (ctrl_step (new_controller True) Call_start)"
    by (rule ctrl_reachable.step [OF ctrl_reachable.init])
  from r ctrl_reachable_inv [OF r] show ?thesis by simp
qed

lemma paste_intercepted_witness:
  "let s = ctrl_run (new_controller True) [Call_start, Guac_keydown CTRL] in
   ctrl_inv s \<and> active s \<and> keysDown s CTRL = Some True \<and> clipboard_api s \<and> is_paste_key 118 \<and>
   outbox (ctrl_run s [Guac_keydown 118, Clipboard_settles (length (clip_reads s)) (Some ''hi'')]) =
     outbox s @ [Emit_keyup CTRL, Emit_type ''hi'']"
proof -
  define s where "s = ctrl_run (new_controller True) [Call_start, Guac_keydown CTRL]"
  have inv: "ctrl_inv s" unfolding s_def by (rule ctrl_run_inv) simp
  have hyps: "active s" "keysDown s CTRL = Some True" "clipboard_api s" "is_paste_key 118"
    by (simp_all add: s_def new_controller_def handler_defs add_handlers_def emit_def
                      Let_def is_paste_key_def)
  show ?thesis unfolding Let_def s_def [symmetric]
    using paste_intercepted [OF inv hyps, of "''hi''"] inv hyps by blast
qed

lemma paste_rejected_silent_witness:
  "let s = ctrl_run (new_controller True) [Call_start, Guac_keydown CTRL] in
   ctrl_inv s \<and> active s \<and> keysDown s CTRL = Some True \<and> is_paste_key 86 \<and>
   outbox (ctrl_run s [Guac_keydown 86, Clipboard_settles 1 None]) = outbox s"
proof -
  define s where "s = ctrl_run (new_controller True) [Call_start, Guac_keydown CTRL]"
  have inv: "ctrl_inv s" unfolding s_def by (rule ctrl_run_inv) simp
  have hyps: "active s" "keysDown s CTRL = Some True" "is_paste_key 86"
    by (simp_all add: s_def new_controller_def handler_defs add_handlers_def emit_def
                      Let_def is_paste_key_def)
  show ?thesis unfolding Let_def s_def [symmetric]
    using paste_rejected_silent [OF inv hyps, of 1] inv hyps by blast
qed

lemma mousemove_coalesced_witness:
  "let s = start (new_controller False) in
   ctrl_inv s \<and> active s \<and> [(1, 2, 10, 10), (5, 5, 10, 10)] \<noteq> [] \<and>
   last [(1, 2, 10, 10), (5, 5, 10, 10)] = ((5::int), (5::int), (10::int), (10::int)) \<and>
   outbox (ctrl_run s (map move_event [(1, 2, 10, 10), (5, 5, 10, 10)] @
                        replicate 3 (Interval_fires (last (intervals s))))) =
     outbox s @ [Emit_mousemove (js_div 5 10) (js_div 5 10)]"
proof -
  define s where "s = start (new_controller False)"
  have inv: "ctrl_inv s" unfolding s_def by (rule start_inv) simp
  have act: "active s" by (simp add: s_def start_def Let_def read_clipboard_def)
  show ?thesis unfolding Let_def s_def [symmetric]
    using mousemove_coalesced [OF inv act, of "[(1, 2, 10, 10), (5, 5, 10, 10)]" 5 5 10 10 2] inv act
    by (simp add: numeral_3_eq_3)
qed

lemma stop_silences_witness:
  "ctrl_inv (start (new_controller True)) \<and>
   list_all native_input [Dom_mousedown 0, Guac_keydown 65, Interval_fires 0] \<and>
   outbox (ctrl_run (stop (start (new_controller True)))
             [Dom_mousedown 0, Guac_keydown 65, Interval_fires 0]) =
     outbox (start (new_controller True)) \<and>
   listeners (stop (start (new_controller True))) = [] \<and>
   timers (stop (start (new_controller True))) = {} \<and>
   keysDown (stop (start (new_controller True))) = Map.empty"
proof -
  have inv: "ctrl_inv (start (new_controller True))" by (rule start_inv) simp
  have nat: "list_all native_input [Dom_mousedown 0, Guac_keydown 65, Interval_fires 0]"
    by (simp add: native_input_def)
  from stop_silences [OF inv nat] inv nat show ?thesis by simp
qed

lemma discrete_in_order_witness:
  "ctrl_inv (start (new_controller False)) \<and> active (start (new_controller False)) \<and>
   those (map relay [Dom_mousedown 0, Dom_wheel (-1), Guac_keyup 65]) =
     Some [Emit_mousedown 0, Emit_scroll True, Emit_keyup 65] \<and>
   outbox (ctrl_run (start (new_controller False)) [Dom_mousedown 0, Dom_wheel (-1), Guac_keyup 65]) =
     outbox (start (new_controller False)) @ [Emit_mousedown 0, Emit_scroll True, Emit_keyup 65]"
proof -
  have inv: "ctrl_inv (start (new_controller False))" by (rule start_inv) simp
  have act: "active (start (new_controller False))"
    by (simp add: start_def Let_def read_clipboard_def)
  have rel: "those (map relay [Dom_mousedown 0, Dom_wheel (-1), Guac_keyup 65]) =
      Some [Emit_mousedown 0, Emit_scroll True, Emit_keyup 65]" by simp
  from discrete_in_order [OF inv act rel] inv act rel show ?thesis by simp
qed

lemma start_registers_once_witness:
  "ctrl_inv (new_controller True) \<and>
   start (start (new_controller True)) = start (new_controller True) \<and>
   distinct (listeners (start (new_controller True))) \<and>
   set (listeners (start (new_controller True))) = all_handlers \<and>
   card (timers (start (new_controller True))) = 1"
  using start_registers_once [OF ctrl_inv_new [of True]] by simp

lemma mousemove_normalised_witness:
  "(0::int) < 10 \<and> (0::int) \<le> 5 \<and> (5::int) \<le> 10 \<and>
   (\<exists>a b. mouseMovePacket (mousemove 5 5 10 10 (new_controller True)) = Some (a, b) \<and>
          js_unit_interval a \<and> js_unit_interval b)"
  using mousemove_normalised [of 10 10 5 5 "new_controller True"] by simp

lemma intervals_accumulate_witness:
  "\<not> active (new_controller True) \<and>
   length (intervals (ctrl_run (new_controller True) (concat (replicate 3 [Call_start, Call_stop])))) = 3"
  using intervals_accumulate [of "new_controller True" 3] by (simp add: new_controller_def)

lemma mousemove_not_clamped_witness:
  "mouseMovePacket (mousemove 15 5 10 10 (new_controller True)) = Some (JFin (3 / 2), JFin (1 / 2)) \<and>
   mouseMovePacket (mousemove 5 5 0 10 (new_controller True)) = Some (JPosInf, JFin (1 / 2))"
  using mousemove_not_clamped [of 10 15 5 10 "new_controller True"]
        mousemove_not_clamped [of _ 5 5 10 "new_controller True"]
  by simp

lemma stale_move_after_restart_witness:
  "let s = mousemove 5 5 10 10 (start (new_controller False)); s' = ctrl_run s [Call_stop, Call_start] in
   mouseMovePacket s = Some (JFin (1 / 2), JFin (1 / 2)) \<and> active s' \<and>
   outbox (ctrl_step s' (Interval_fires (last (intervals s')))) = [Emit_mousemove (JFin (1 / 2)) (JFin (1 / 2))]"
proof -
  define s where "s = mousemove 5 5 10 10 (start (new_controller False))"
  have p: "mouseMovePacket s = Some (JFin (1 / 2), JFin (1 / 2))" by (simp add: s_def mousemove_def)
  have o: "outbox s = []"
    by (simp add: s_def mousemove_def start_def new_controller_def Let_def read_clipboard_def)
  show ?thesis unfolding Let_def s_def [symmetric]
    using stale_move_after_restart [OF p] p o by (simp add: Let_def)
qed

lemma paste_after_stop_relayed_witness:
  "let s = ctrl_run (new_controller True) [Call_start, Guac_keydown CTRL, Guac_keydown 118] in
   1 < length (clip_reads s) \<and> clip_reads s ! 1 = Paste_read \<and> \<not> active (stop s) \<and>
   outbox (ctrl_run s [Call_stop, Clipboard_settles 1 (Some ''x'')]) =
     [Emit_keydown CTRL, Emit_keyup CTRL, Emit_type ''x'']"
proof -
  define s where "s = ctrl_run (new_controller True) [Call_start, Guac_keydown CTRL, Guac_keydown 118]"
  have r: "1 < length (clip_reads s)" "clip_reads s ! 1 = Paste_read" "outbox s = [Emit_keydown CTRL]"
    by (simp_all add: s_def new_controller_def handler_defs add_handlers_def emit_def
                      Let_def is_paste_key_def)
  show ?thesis unfolding Let_def s_def [symmetric]
    using paste_after_stop_relayed [OF r(1,2), of "''x''"] r by simp
qed

end
