(* ===== verification/RelaySpec.thy ===== *)
theory RelaySpec
  imports InputController
begin

text \<open>
  The input relay as the spec describes it (sections 3 and 4.1 of the spec),
  and the proof that the controller of \<^verbatim>\<open>src/app/html/index.js\<close> implements
  it. The abstract machine \<open>relay\<close> knows only whether the relay is active,
  the pending pointer position, the held keys, the pending clipboard reads
  and the outbound channel; every input is handled \<^emph>\<open>if the relay is
  active\<close>. The controller realises ``active'' through the browser: listener
  registrations on the stream element, the Guacamole callbacks and an interval
  timer handle. \<open>ctrl_abs\<close> forgets that machinery, and \<open>ctrl_abs_event\<close> maps
  each browser event to the abstract input it delivers: a DOM event to its
  input, a timer firing to a relay tick when it is the controller's running
  interval and to nothing otherwise. Under the controller's invariant each
  concrete step is the abstract step of the mapped event (a refinement
  mapping, as \<open>simulate_ES_fun\<close> of event systems has it).
\<close>

record relay =
  r_active :: bool
  r_pending :: "(jsnum \<times> jsnum) option"
  r_keys :: "keysym \<rightharpoonup> bool"
  r_reads :: "clip_read list"
  r_api :: bool
  r_out :: "emission list"

datatype relay_event =
    R_move jsnum jsnum
  | R_button button bool
  | R_scroll bool
  | R_keydown keysym
  | R_keyup keysym
  | R_tick
  | R_settle nat "string option"
  | R_start
  | R_stop
  | R_idle

definition r_emit :: "emission \<Rightarrow> relay \<Rightarrow> relay" where
  "r_emit e r = r\<lparr>r_out := r_out r @ [e]\<rparr>"

definition r_read :: "clip_read \<Rightarrow> relay \<Rightarrow> relay" where
  "r_read c r = (if r_api r then r\<lparr>r_reads := r_reads r @ [c]\<rparr> else r)"

text \<open>
  The spec's contract. Moves overwrite the single pending move; the 30 Hz
  tick emits and clears it; buttons, scrolls and keys are relayed at once; a
  key-down of \<^verbatim>\<open>v\<close>/\<^verbatim>\<open>V\<close> with Control held starts a clipboard read instead;
  a fulfilled paste read relays key-up of Control then the text (also after
  \<^verbatim>\<open>stop\<close>, the accepted race of section 9); \<^verbatim>\<open>start\<close> and \<^verbatim>\<open>stop\<close> are
  idempotent, \<^verbatim>\<open>start\<close> probes the clipboard, \<^verbatim>\<open>stop\<close> clears the held keys.
\<close>

fun relay_step :: "relay \<Rightarrow> relay_event \<Rightarrow> relay" where
  "relay_step r (R_move x y) = (if r_active r then r\<lparr>r_pending := Some (x, y)\<rparr> else r)"
| "relay_step r (R_button b down) =
     (if r_active r then r_emit (if down then Emit_mousedown b else Emit_mouseup b) r else r)"
| "relay_step r (R_scroll up) = (if r_active r then r_emit (Emit_scroll up) r else r)"
| "relay_step r (R_keydown k) =
     (if r_active r then
        (let r1 = r\<lparr>r_keys := (r_keys r)(k \<mapsto> True)\<rparr> in
         if r_keys r1 CTRL = Some True \<and> (k = 118 \<or> k = 86) then r_read Paste_read r1
         else r_emit (Emit_keydown k) r1)
      else r)"
| "relay_step r (R_keyup k) =
     (if r_active r then r_emit (Emit_keyup k) (r\<lparr>r_keys := (r_keys r)(k := None)\<rparr>) else r)"
| "relay_step r R_tick =
     (if r_active r then
        (case r_pending r of
           None \<Rightarrow> r
         | Some (x, y) \<Rightarrow> (r_emit (Emit_mousemove x y) r)\<lparr>r_pending := None\<rparr>)
      else r)"
| "relay_step r (R_settle i res) =
     (if i < length (r_reads r) then
        (let r1 = r\<lparr>r_reads := drop_nth i (r_reads r)\<rparr> in
         case (r_reads r ! i, res) of
           (Paste_read, Some t) \<Rightarrow> r_emit (Emit_type t) (r_emit (Emit_keyup CTRL) r1)
         | _ \<Rightarrow> r1)
      else r)"
| "relay_step r R_start = (if r_active r then r else r_read Probe_read (r\<lparr>r_active := True\<rparr>))"
| "relay_step r R_stop = (if r_active r then r\<lparr>r_active := False, r_keys := Map.empty\<rparr> else r)"
| "relay_step r R_idle = r"

definition relay_init :: "bool \<Rightarrow> relay" where
  "relay_init api =
     \<lparr>r_active = False, r_pending = None, r_keys = Map.empty, r_reads = [], r_api = api,
      r_out = []\<rparr>"

subsection \<open>The refinement mapping\<close>

definition ctrl_abs :: "'a ctrl_world_scheme \<Rightarrow> relay" where
  "ctrl_abs s =
     \<lparr>r_active = active s, r_pending = mouseMovePacket s, r_keys = keysDown s,
      r_reads = clip_reads s, r_api = clipboard_api s, r_out = outbox s\<rparr>"

fun ctrl_abs_event :: "'a ctrl_world_scheme \<Rightarrow> ctrl_event \<Rightarrow> relay_event" where
  "ctrl_abs_event s (Dom_mousemove x y w h) = R_move (js_div x w) (js_div y h)"
| "ctrl_abs_event s (Dom_mousedown b) = R_button b True"
| "ctrl_abs_event s (Dom_mouseup b) = R_button b False"
| "ctrl_abs_event s (Dom_wheel d) = R_scroll (d < 0)"
| "ctrl_abs_event s (Guac_keydown k) = R_keydown k"
| "ctrl_abs_event s (Guac_keyup k) = R_keyup k"
| "ctrl_abs_event s (Interval_fires t) = (if t \<in> timers s then R_tick else R_idle)"
| "ctrl_abs_event s (Clipboard_settles i r) = R_settle i r"
| "ctrl_abs_event s Call_start = R_start"
| "ctrl_abs_event s Call_stop = R_stop"

subsection \<open>Simulation\<close>

lemma ctrl_abs_emit [simp]: "ctrl_abs (emit e s) = r_emit e (ctrl_abs s)"
  by (simp add: ctrl_abs_def emit_def r_emit_def)

lemma ctrl_abs_read [simp]: "ctrl_abs (read_clipboard c s) = r_read c (ctrl_abs s)"
  by (simp add: ctrl_abs_def read_clipboard_def r_read_def)

lemma r_active_ops [simp]:
  "r_active (r_emit e r) = r_active r" "r_active (r_read c r) = r_active r"
  by (simp_all add: r_emit_def r_read_def)

text \<open>A handler that the DOM runs for a registered listener: once if active, never otherwise.\<close>

lemma ctrl_abs_dispatch:
  assumes "ctrl_inv s" "l \<in> all_handlers"
  shows "ctrl_abs (dispatch l h s) = (if active s then ctrl_abs (h s) else ctrl_abs s)"
  using assms by (simp add: dispatch_active dispatch_inactive)

lemma ctrl_abs_new [simp]: "ctrl_abs (new_controller api) = relay_init api"
  by (simp add: ctrl_abs_def new_controller_def relay_init_def)

subsection \<open>Property\<close>

text \<open>
  C2. The controller refines the spec's relay: in every state satisfying the
  controller's invariant (every reachable state, by C1), each browser event
  changes the controller's relay state (active, pending move, held keys,
  pending clipboard reads, everything sent on the socket) exactly as the
  abstract relay's step for the input the event delivers. Listener
  registrations, keyboard callbacks and the interval handle realise ``only
  while active'' exactly.
\<close>

theorem ctrl_refines_relay:
  assumes inv: "ctrl_inv s"
  shows "ctrl_abs (ctrl_step s e) = relay_step (ctrl_abs s) (ctrl_abs_event s e)"
proof (cases e)
  case (Interval_fires t)
  have "t \<in> timers s \<Longrightarrow> active s" using inv by (auto simp: ctrl_inv_def split: if_splits)
  then show ?thesis using Interval_fires
    by (auto simp: interval_tick_def ctrl_abs_def emit_def r_emit_def split: option.splits)
next
  case (Guac_keydown k)
  then show ?thesis using inv
    by (simp add: ctrl_inv_def onkeydown_def Let_def is_paste_key_def)
       (simp add: ctrl_abs_def)
next
  case (Guac_keyup k)
  then show ?thesis using inv
    by (simp add: ctrl_inv_def onkeyup_def) (simp add: ctrl_abs_def)
next
  case (Clipboard_settles i r)
  then show ?thesis
    by (auto simp: clipboard_settle_def Let_def ctrl_abs_def emit_def r_emit_def
             split: clip_read.splits option.splits)
next
  case Call_start
  then show ?thesis
    by (simp add: start_def Let_def) (simp add: ctrl_abs_def read_clipboard_def r_read_def)
next
  case Call_stop
  then show ?thesis by (simp add: stop_def ctrl_abs_def)
qed (use inv in \<open>simp_all add: ctrl_abs_dispatch handler_defs\<close>,
     (simp_all add: ctrl_abs_def))

subsection \<open>Witness\<close>

lemma ctrl_refines_relay_witness:
  "ctrl_inv (new_controller True) \<and>
   ctrl_abs (ctrl_step (new_controller True) Call_start) = relay_step (relay_init True) R_start"
  using ctrl_refines_relay [of "new_controller True" Call_start] by simp

end
