(* ===== verification/Janus.thy ===== *)
theory Janus
  imports JsBuiltins
begin
text \<open>
  The session lifecycle manager of \<^verbatim>\<open>src/app/html/index.js\<close>: the async
  function \<^verbatim>\<open>startJanus\<close> (lines 112--252) and the retry loop \<^verbatim>\<open>check\<close>
  / \<^verbatim>\<open>preStartJanus\<close> (lines 381--408). First the two pure computations
  inside it, the stream matcher of the plugin's \<^verbatim>\<open>success\<close> callback and
  the SDP rewrite of \<^verbatim>\<open>customizeSdp\<close>; then the lifecycle itself as a step
  function over the page's global state (\<^verbatim>\<open>janusInitialized\<close>, the
  \<^verbatim>\<open>playing\<close> map) and the in-flight \<^verbatim>\<open>startJanus\<close> invocations, driven
  by the events the Janus library and the browser deliver. Last, the spec's
  session state machine and the relation \<open>session_follows\<close> through which
  the lifecycle refines it.
\<close>


section \<open>Definitions\<close>

subsection \<open>Stream matching\<close>

text \<open>An entry of the \<^verbatim>\<open>list\<close> reply: \<^verbatim>\<open>{id, description}\<close>.\<close>

record stream_item =
  item_id :: int
  description :: string

definition stream_matches :: "string \<Rightarrow> stream_item \<Rightarrow> bool" where
  "stream_matches streamName item =
     js_includes (js_toLowerCase (description item)) (js_toLowerCase streamName)"

text \<open>\<^verbatim>\<open>list.find(item => item.description.toLowerCase().includes(streamName.toLowerCase()))\<close>\<close>

definition find_stream :: "string \<Rightarrow> stream_item list \<Rightarrow> stream_item option" where
  [lifecycle_defs]: "find_stream streamName list = find (stream_matches streamName) list"

text \<open>Lines 163--171: a \<^verbatim>\<open>null\<close> reply, an empty list and no match all end the
  callback without a watch request.\<close>

definition select_stream :: "string \<Rightarrow> stream_item list option \<Rightarrow> stream_item option" where
  [lifecycle_defs]: "select_stream streamName reply =
     (case reply of
        None \<Rightarrow> None
      | Some list \<Rightarrow> if length list \<le> 0 then None else find_stream streamName list)"

subsection \<open>The SDP rewrite\<close>

text \<open>Line 216 (on the offer) and line 224 (on the answer).\<close>

definition sdp_has_stereo :: "string \<Rightarrow> bool" where
  "sdp_has_stereo sdp = (js_indexOf sdp ''stereo=1'' \<noteq> -1)"

text \<open>\<^verbatim>\<open>customizeSdp\<close> (lines 223--230), with the offer's stereo flag captured.\<close>

definition customizeSdp :: "bool \<Rightarrow> string \<Rightarrow> string" where
  [lifecycle_defs]: "customizeSdp stereo sdp =
     (if stereo \<and> js_indexOf sdp ''stereo=1'' = -1
      then js_replace sdp ''useinbandfec=1'' ''useinbandfec=1;stereo=1''
      else sdp)"

subsection \<open>The lifecycle state\<close>

datatype sub_stream = Video | Audio

fun stream_name :: "sub_stream \<Rightarrow> string" where
  "stream_name Video = ''video''"
| "stream_name Audio = ''audio''"

text \<open>
  One invocation of \<^verbatim>\<open>startJanus\<close>: where its own \<^verbatim>\<open>await\<close>s stand, and
  once the plugin is attached, how far the plugin's \<^verbatim>\<open>success\<close> callback
  has got (\<open>flow\<close>). \<open>Flow_ended\<close> is an early \<^verbatim>\<open>return\<close> of that
  callback (lines 163, 164, 171).
\<close>

datatype flow = Listing | Watch_sent int | Flow_done | Flow_ended

datatype attempt_phase =
    Init_pending
  | Session_pending
  | Attach_pending
  | Attached flow
  | Attach_failed
  | Session_failed
  | No_webrtc
  | Torn_down

record attempt =
  att_sub :: sub_stream
  phase :: attempt_phase
  answers :: "bool list"

text \<open>What the code sends to the Janus library and the media sink, per attempt.\<close>

datatype sig_msg =
    Sig_init | Sig_alert | Sig_attach | Sig_list | Sig_watch int
  | Sig_create_answer | Sig_start string | Sig_play | Sig_detach | Sig_destroy

text \<open>
  The page's globals \<^verbatim>\<open>janusInitialized\<close> (line 112) and \<^verbatim>\<open>playing\<close>
  (lines 381--384), whether the 5 s interval exists, the browser's WebRTC
  support, the attempts in call order (an attempt's index names it) and the log
  of requests.
\<close>

record lifecycle =
  janusInitialized :: bool
  playing :: "sub_stream \<Rightarrow> bool"
  attempts :: "attempt list"
  retry_armed :: bool
  webrtc_supported :: bool
  sig_log :: "(nat \<times> sig_msg) list"

record plugin_msg =
  has_status :: bool
  has_error :: bool

definition lc_init :: "bool \<Rightarrow> lifecycle" where
  "lc_init webrtc =
     \<lparr>janusInitialized = False, playing = (\<lambda>_. False), attempts = [], retry_armed = False,
      webrtc_supported = webrtc, sig_log = []\<rparr>"

definition log :: "nat \<Rightarrow> sig_msg \<Rightarrow> lifecycle \<Rightarrow> lifecycle" where
  "log i m s = s\<lparr>sig_log := sig_log s @ [(i, m)]\<rparr>"

definition set_phase :: "nat \<Rightarrow> attempt_phase \<Rightarrow> lifecycle \<Rightarrow> lifecycle" where
  "set_phase i p s = s\<lparr>attempts := (attempts s)[i := (attempts s ! i)\<lparr>phase := p\<rparr>]\<rparr>"

definition in_phase :: "nat \<Rightarrow> attempt_phase \<Rightarrow> lifecycle \<Rightarrow> bool" where
  "in_phase i p s = (i < length (attempts s) \<and> phase (attempts s ! i) = p)"

definition is_attached :: "attempt_phase \<Rightarrow> bool" where
  "is_attached p = (case p of Attached _ \<Rightarrow> True | _ \<Rightarrow> False)"

definition attached :: "nat \<Rightarrow> lifecycle \<Rightarrow> bool" where
  "attached i s = (i < length (attempts s) \<and> is_attached (phase (attempts s ! i)))"

definition sub_of :: "nat \<Rightarrow> lifecycle \<Rightarrow> sub_stream" where
  "sub_of i s = att_sub (attempts s ! i)"

subsection \<open>startJanus and the retry loop\<close>

text \<open>\<^verbatim>\<open>.then(() => { playing[streamName] = true; })\<close> of \<^verbatim>\<open>check\<close> (lines 392--394).\<close>

definition resolve_start :: "sub_stream \<Rightarrow> lifecycle \<Rightarrow> lifecycle" where
  [lifecycle_defs]: "resolve_start x s = s\<lparr>playing := (playing s)(x := True)\<rparr>"

text \<open>Lines 125--146 up to the session's \<^verbatim>\<open>await\<close>: without WebRTC the
  function alerts and returns, which resolves its promise.\<close>

definition after_init :: "nat \<Rightarrow> lifecycle \<Rightarrow> lifecycle" where
  [lifecycle_defs]: "after_init i s =
     (if \<not> webrtc_supported s
      then resolve_start (sub_of i s) (log i Sig_alert (set_phase i No_webrtc s))
      else set_phase i Session_pending s)"

text \<open>A call \<^verbatim>\<open>startJanus(el, streamName, destroyedCallback)\<close> runs
  synchronously to its first \<^verbatim>\<open>await\<close>.\<close>

definition startJanus :: "sub_stream \<Rightarrow> lifecycle \<Rightarrow> lifecycle" where
  [lifecycle_defs]: "startJanus x s =
     (let i = length (attempts s);
          s1 = s\<lparr>attempts := attempts s @ [\<lparr>att_sub = x, phase = Init_pending, answers = []\<rparr>]\<rparr>
      in if \<not> janusInitialized s then log i Sig_init s1 else after_init i s1)"

definition check :: "sub_stream \<Rightarrow> lifecycle \<Rightarrow> lifecycle" where
  [lifecycle_defs]: "check x s = (if \<not> playing s x then startJanus x s else s)"

definition check_both :: "lifecycle \<Rightarrow> lifecycle" where
  [lifecycle_defs]: "check_both s = check Audio (check Video s)"

definition preStartJanus :: "lifecycle \<Rightarrow> lifecycle" where
  [lifecycle_defs]: "preStartJanus s = (check_both s)\<lparr>retry_armed := True\<rparr>"

subsection \<open>Callbacks of the Janus library\<close>

text \<open>The \<^verbatim>\<open>Janus.init\<close> callback: line 122, then the rest of the function.\<close>

definition init_done :: "nat \<Rightarrow> lifecycle \<Rightarrow> lifecycle" where
  [lifecycle_defs]: "init_done i s =
     (if in_phase i Init_pending s then after_init i (s\<lparr>janusInitialized := True\<rparr>) else s)"

text \<open>\<^verbatim>\<open>success\<close> of \<^verbatim>\<open>new Janus\<close>: the function attaches the plugin without
  awaiting it and returns, so its promise resolves and \<^verbatim>\<open>playing\<close> is set.\<close>

definition session_success :: "nat \<Rightarrow> lifecycle \<Rightarrow> lifecycle" where
  [lifecycle_defs]: "session_success i s =
     (if in_phase i Session_pending s
      then resolve_start (sub_of i s) (log i Sig_attach (set_phase i Attach_pending s))
      else s)"

text \<open>\<^verbatim>\<open>error\<close> of \<^verbatim>\<open>new Janus\<close>: the promise rejects; \<^verbatim>\<open>.catch\<close> only logs.\<close>

definition session_error :: "nat \<Rightarrow> lifecycle \<Rightarrow> lifecycle" where
  [lifecycle_defs]: "session_error i s =
     (if in_phase i Session_pending s then set_phase i Session_failed s else s)"

definition attach_success :: "nat \<Rightarrow> lifecycle \<Rightarrow> lifecycle" where
  [lifecycle_defs]: "attach_success i s =
     (if in_phase i Attach_pending s then log i Sig_list (set_phase i (Attached Listing) s) else s)"

definition attach_error :: "nat \<Rightarrow> lifecycle \<Rightarrow> lifecycle" where
  [lifecycle_defs]: "attach_error i s =
     (if in_phase i Attach_pending s then set_phase i Attach_failed s else s)"

text \<open>The \<^verbatim>\<open>list\<close> reply (lines 156--179).\<close>

definition list_reply :: "nat \<Rightarrow> stream_item list option \<Rightarrow> lifecycle \<Rightarrow> lifecycle" where
  [lifecycle_defs]: "list_reply i r s =
     (if in_phase i (Attached Listing) s then
        (case select_stream (stream_name (sub_of i s)) r of
           None \<Rightarrow> set_phase i (Attached Flow_ended) s
         | Some item \<Rightarrow> log i (Sig_watch (item_id item)) (set_phase i (Attached (Watch_sent (item_id item))) s))
      else s)"

definition watch_ack :: "nat \<Rightarrow> lifecycle \<Rightarrow> lifecycle" where
  [lifecycle_defs]: "watch_ack i s =
     (if i < length (attempts s) then
        (case phase (attempts s ! i) of
           Attached (Watch_sent _) \<Rightarrow> set_phase i (Attached Flow_done) s
         | _ \<Rightarrow> s)
      else s)"

definition set_answers :: "nat \<Rightarrow> bool list \<Rightarrow> lifecycle \<Rightarrow> lifecycle" where
  "set_answers i bs s = s\<lparr>attempts := (attempts s)[i := (attempts s ! i)\<lparr>answers := bs\<rparr>]\<rparr>"

text \<open>\<^verbatim>\<open>onmessage\<close> (lines 195--245): an error without a status returns
  early; an offer starts \<^verbatim>\<open>createAnswer\<close> with its stereo flag captured.\<close>

definition onmessage :: "nat \<Rightarrow> plugin_msg \<Rightarrow> string option \<Rightarrow> lifecycle \<Rightarrow> lifecycle" where
  [lifecycle_defs]: "onmessage i msg jsep s =
     (if attached i s then
        (if \<not> has_status msg \<and> has_error msg then s
         else (case jsep of
                 None \<Rightarrow> s
               | Some offer \<Rightarrow>
                   log i Sig_create_answer
                     (set_answers i (answers (attempts s ! i) @ [sdp_has_stereo offer]) s)))
      else s)"

text \<open>\<^verbatim>\<open>createAnswer\<close>'s \<^verbatim>\<open>success\<close>: the answer, rewritten by
  \<^verbatim>\<open>customizeSdp\<close>, goes out with the \<^verbatim>\<open>start\<close> request.\<close>

definition answer_created :: "nat \<Rightarrow> nat \<Rightarrow> string \<Rightarrow> lifecycle \<Rightarrow> lifecycle" where
  [lifecycle_defs]: "answer_created i j sdp s =
     (if attached i s \<and> j < length (answers (attempts s ! i)) then
        log i (Sig_start (customizeSdp (answers (attempts s ! i) ! j) sdp))
          (set_answers i (drop_nth j (answers (attempts s ! i))) s)
      else s)"

definition answer_error :: "nat \<Rightarrow> nat \<Rightarrow> lifecycle \<Rightarrow> lifecycle" where
  [lifecycle_defs]: "answer_error i j s =
     (if attached i s \<and> j < length (answers (attempts s ! i))
      then set_answers i (drop_nth j (answers (attempts s ! i))) s else s)"

definition onremotestream :: "nat \<Rightarrow> lifecycle \<Rightarrow> lifecycle" where
  [lifecycle_defs]: "onremotestream i s = (if attached i s then log i Sig_play s else s)"

text \<open>\<^verbatim>\<open>iceState\<close> (lines 184--191): detach, destroy, and the
  \<^verbatim>\<open>destroyedCallback\<close> of \<^verbatim>\<open>check\<close> clears \<^verbatim>\<open>playing\<close>.\<close>

definition iceState :: "nat \<Rightarrow> string \<Rightarrow> lifecycle \<Rightarrow> lifecycle" where
  [lifecycle_defs]: "iceState i st s =
     (if attached i s \<and> st = ''disconnected'' then
        (let s1 = log i Sig_destroy (log i Sig_detach (set_phase i Torn_down s))
         in s1\<lparr>playing := (playing s1)(sub_of i s := False)\<rparr>)
      else s)"

subsection \<open>Event delivery\<close>

datatype lc_event =
    Page_ready
  | Retry_tick
  | Init_done nat
  | Session_ok nat
  | Session_error nat
  | Attach_ok nat
  | Attach_error nat
  | List_reply nat "stream_item list option"
  | Watch_ack nat
  | Plugin_message nat plugin_msg "string option"
  | Answer_created nat nat string
  | Answer_error nat nat
  | Remote_stream nat
  | Ice_state nat string

text \<open>\<^verbatim>\<open>preStartJanus\<close> runs once (the start element removes itself on
  click, line 416); the 5 s interval fires only once it exists.\<close>

fun lc_step :: "lifecycle \<Rightarrow> lc_event \<Rightarrow> lifecycle" where
  "lc_step s Page_ready = (if retry_armed s then s else preStartJanus s)"
| "lc_step s Retry_tick = (if retry_armed s then check_both s else s)"
| "lc_step s (Init_done i) = init_done i s"
| "lc_step s (Session_ok i) = session_success i s"
| "lc_step s (Session_error i) = session_error i s"
| "lc_step s (Attach_ok i) = attach_success i s"
| "lc_step s (Attach_error i) = attach_error i s"
| "lc_step s (List_reply i r) = list_reply i r s"
| "lc_step s (Watch_ack i) = watch_ack i s"
| "lc_step s (Plugin_message i m j) = onmessage i m j s"
| "lc_step s (Answer_created i j sdp) = answer_created i j sdp s"
| "lc_step s (Answer_error i j) = answer_error i j s"
| "lc_step s (Remote_stream i) = onremotestream i s"
| "lc_step s (Ice_state i st) = iceState i st s"

fun lc_run :: "lifecycle \<Rightarrow> lc_event list \<Rightarrow> lifecycle" where
  "lc_run s [] = s"
| "lc_run s (e # es) = lc_run (lc_step s e) es"

inductive lc_reachable :: "lifecycle \<Rightarrow> bool" where
  init: "lc_reachable (lc_init webrtc)"
| step: "lc_reachable s \<Longrightarrow> lc_reachable (lc_step s e)"

subsection \<open>The invariant\<close>

text \<open>
  An attempt is \<open>resolved\<close> once the promise of its \<^verbatim>\<open>startJanus\<close> call
  has resolved and its plugin handle has not been torn down. The invariant: a
  sub-stream is marked playing only while it has a resolved attempt.
\<close>

definition resolved :: "attempt_phase \<Rightarrow> bool" where
  "resolved p =
     (case p of Attach_pending \<Rightarrow> True | Attached _ \<Rightarrow> True | Attach_failed \<Rightarrow> True
              | No_webrtc \<Rightarrow> True | _ \<Rightarrow> False)"

definition has_resolved :: "sub_stream \<Rightarrow> lifecycle \<Rightarrow> bool" where
  "has_resolved x s =
     (\<exists>j < length (attempts s). att_sub (attempts s ! j) = x \<and> resolved (phase (attempts s ! j)))"

definition lc_inv :: "lifecycle \<Rightarrow> bool" where
  "lc_inv s = (\<forall>x. playing s x \<longrightarrow> has_resolved x s)"

subsection \<open>Lemmas on startJanus and the retry loop\<close>

text \<open>The events addressed to one attempt (a callback of its session or handle).\<close>

fun target :: "lc_event \<Rightarrow> nat option" where
  "target (Init_done i) = Some i"
| "target (Session_ok i) = Some i"
| "target (Session_error i) = Some i"
| "target (Attach_ok i) = Some i"
| "target (Attach_error i) = Some i"
| "target (List_reply i r) = Some i"
| "target (Watch_ack i) = Some i"
| "target (Plugin_message i m j) = Some i"
| "target (Answer_created i k sdp) = Some i"
| "target (Answer_error i k) = Some i"
| "target (Remote_stream i) = Some i"
| "target (Ice_state i st) = Some i"
| "target Page_ready = None"
| "target Retry_tick = None"

definition subs_of :: "sub_stream \<Rightarrow> lifecycle \<Rightarrow> attempt list" where
  "subs_of y s = filter (\<lambda>a. att_sub a = y) (attempts s)"

subsection \<open>The spec's session lifecycle\<close>

text \<open>
  The spec (section 3) gives each sub-stream the lifecycle
  \<open>Idle \<rightarrow> Attaching \<rightarrow> Listing \<rightarrow> Watching \<rightarrow> Connected \<rightarrow>
  (Disconnected \<rightarrow> Idle)\<close>, and its error taxonomy (section 5) leaves a
  failed step ``unconnected'', retried wholesale: a failure of any step
  before \<open>Connected\<close> is an edge to \<open>Disconnected\<close>. \<open>session_of\<close> reads an
  attempt's phase as a state of that graph: the three pending callbacks of
  \<^verbatim>\<open>startJanus\<close> are \<open>Attaching\<close>, the flow of an attached handle is
  \<open>Listing\<close>, \<open>Watching\<close> or \<open>Connected\<close>, and every ended attempt is
  \<open>Disconnected\<close>. \<open>session_follows s s'\<close> says that \<open>s'\<close> keeps every
  attempt of \<open>s\<close> on its sub-stream, each moved along an edge of the graph
  or left where it was, and that every attempt \<open>s'\<close> adds is a fresh
  one, just out of \<open>Idle\<close> (or ended at once, without WebRTC).
\<close>

datatype session_state = S_Idle | S_Attaching | S_Listing | S_Watching | S_Connected | S_Disconnected

fun session_next :: "session_state \<Rightarrow> session_state list" where
  "session_next S_Idle = [S_Attaching]"
| "session_next S_Attaching = [S_Listing, S_Disconnected]"
| "session_next S_Listing = [S_Watching, S_Disconnected]"
| "session_next S_Watching = [S_Connected, S_Disconnected]"
| "session_next S_Connected = [S_Disconnected]"
| "session_next S_Disconnected = [S_Idle]"

fun session_of :: "attempt_phase \<Rightarrow> session_state" where
  "session_of Init_pending = S_Attaching"
| "session_of Session_pending = S_Attaching"
| "session_of Attach_pending = S_Attaching"
| "session_of (Attached Listing) = S_Listing"
| "session_of (Attached (Watch_sent _)) = S_Watching"
| "session_of (Attached Flow_done) = S_Connected"
| "session_of (Attached Flow_ended) = S_Disconnected"
| "session_of Attach_failed = S_Disconnected"
| "session_of Session_failed = S_Disconnected"
| "session_of No_webrtc = S_Disconnected"
| "session_of Torn_down = S_Disconnected"

definition session_move :: "session_state \<Rightarrow> session_state \<Rightarrow> bool" where
  "session_move a b = (b = a \<or> b \<in> set (session_next a))"

definition phases :: "lifecycle \<Rightarrow> (sub_stream \<times> attempt_phase) list" where
  "phases s = map (\<lambda>a. (att_sub a, phase a)) (attempts s)"

definition session_follows :: "lifecycle \<Rightarrow> lifecycle \<Rightarrow> bool" where
  "session_follows s s' =
     (let ps = phases s; ps' = phases s' in
      length ps \<le> length ps' \<and>
      list_all2 (\<lambda>(x, p) (x', p'). x' = x \<and> session_move (session_of p) (session_of p'))
        ps (take (length ps) ps') \<and>
      list_all (\<lambda>(x, p). session_of p = S_Attaching \<or> session_of p = S_Disconnected)
        (drop (length ps) ps'))"

section \<open>Lemmas\<close>

subsection \<open>The SDP rewrite\<close>

lemma sdp_has_stereo_sublist [simp]: "sdp_has_stereo sdp = sublist ''stereo=1'' sdp"
  by (simp add: sdp_has_stereo_def js_indexOf_found)

lemma customizeSdp_sublist:
  "customizeSdp stereo sdp =
     (if stereo \<and> \<not> sublist ''stereo=1'' sdp
      then js_replace sdp ''useinbandfec=1'' ''useinbandfec=1;stereo=1'' else sdp)"
  using js_indexOf_found [of sdp "''stereo=1''"] by (auto simp: customizeSdp_def)

lemma stereo_in_replacement: "sublist ''stereo=1'' (a @ ''useinbandfec=1;stereo=1'' @ b)"
proof -
  have "a @ ''useinbandfec=1;stereo=1'' @ b = (a @ ''useinbandfec=1;'') @ ''stereo=1'' @ b" by simp
  then show ?thesis by (metis sublist_appendI)
qed

subsection \<open>Lemmas on the matcher and the rewrite\<close>

lemma stream_matches_sublist:
  "stream_matches n item = sublist (js_toLowerCase n) (js_toLowerCase (description item))"
  by (simp add: stream_matches_def)

lemma find_split:
  "find P xs = Some x \<longleftrightarrow> (\<exists>ys zs. xs = ys @ x # zs \<and> P x \<and> (\<forall>y \<in> set ys. \<not> P y))"
proof (induction xs)
  case Nil
  then show ?case by simp
next
  case (Cons a as)
  show ?case
  proof (cases "P a")
    case True
    have "(\<exists>ys zs. a # as = ys @ x # zs \<and> P x \<and> (\<forall>y \<in> set ys. \<not> P y)) \<longleftrightarrow> x = a"
    proof
      assume "\<exists>ys zs. a # as = ys @ x # zs \<and> P x \<and> (\<forall>y \<in> set ys. \<not> P y)"
      then obtain ys zs where eq: "a # as = ys @ x # zs" and no: "\<forall>y \<in> set ys. \<not> P y" by blast
      show "x = a"
      proof (cases ys)
        case Nil
        with eq show ?thesis by simp
      next
        case (Cons y ys')
        with eq no True show ?thesis by simp
      qed
    next
      assume "x = a"
      with True show "\<exists>ys zs. a # as = ys @ x # zs \<and> P x \<and> (\<forall>y \<in> set ys. \<not> P y)"
        by (intro exI [of _ "[]"] exI [of _ as]) simp
    qed
    with True show ?thesis by auto
  next
    case False
    have "(\<exists>ys zs. a # as = ys @ x # zs \<and> P x \<and> (\<forall>y \<in> set ys. \<not> P y)) \<longleftrightarrow>
          (\<exists>ys zs. as = ys @ x # zs \<and> P x \<and> (\<forall>y \<in> set ys. \<not> P y))"
    proof
      assume "\<exists>ys zs. a # as = ys @ x # zs \<and> P x \<and> (\<forall>y \<in> set ys. \<not> P y)"
      then obtain ys zs where eq: "a # as = ys @ x # zs" and px: "P x"
          and no: "\<forall>y \<in> set ys. \<not> P y" by blast
      with False obtain ys' where "ys = a # ys'" by (cases ys) auto
      with eq px no show "\<exists>ys zs. as = ys @ x # zs \<and> P x \<and> (\<forall>y \<in> set ys. \<not> P y)" by auto
    next
      assume "\<exists>ys zs. as = ys @ x # zs \<and> P x \<and> (\<forall>y \<in> set ys. \<not> P y)"
      then obtain ys zs where "as = ys @ x # zs" "P x" "\<forall>y \<in> set ys. \<not> P y" by blast
      with False show "\<exists>ys zs. a # as = ys @ x # zs \<and> P x \<and> (\<forall>y \<in> set ys. \<not> P y)"
        by (intro exI [of _ "a # ys"] exI [of _ zs]) simp
    qed
    with False Cons.IH show ?thesis by simp
  qed
qed

lemma customizeSdp_absent: "\<not> sublist ''useinbandfec=1'' sdp \<Longrightarrow> customizeSdp st sdp = sdp"
  by (simp add: customizeSdp_sublist js_replace_absent)

lemma customizeSdp_present:
  assumes "sublist ''useinbandfec=1'' sdp"
  shows "sublist ''stereo=1'' (customizeSdp st sdp) \<or> customizeSdp st sdp = sdp"
proof -
  from js_replace_first [OF assms, of "''useinbandfec=1;stereo=1''"]
  obtain a b where "js_replace sdp ''useinbandfec=1'' ''useinbandfec=1;stereo=1'' =
                      a @ ''useinbandfec=1;stereo=1'' @ b" by blast
  then have r: "sublist ''stereo=1'' (js_replace sdp ''useinbandfec=1'' ''useinbandfec=1;stereo=1'')"
    by (simp only: stereo_in_replacement)
  show ?thesis
  proof (cases "st \<and> \<not> sublist ''stereo=1'' sdp")
    case True
    then have "customizeSdp st sdp = js_replace sdp ''useinbandfec=1'' ''useinbandfec=1;stereo=1''"
      by (simp only: customizeSdp_sublist if_True simp_thms)
    with r show ?thesis by (simp only: disj_not2 imp_conv_disj simp_thms)
  next
    case False
    then have "customizeSdp st sdp = sdp" by (simp only: customizeSdp_sublist if_False)
    then show ?thesis by (rule disjI2)
  qed
qed

subsection \<open>Lemmas on the lifecycle operations\<close>

lemma set_phase_attempts [simp]:
  "length (attempts (set_phase i p s)) = length (attempts s)"
  "att_sub (attempts (set_phase i p s) ! j) = att_sub (attempts s ! j)"
  "playing (set_phase i p s) = playing s"
  "retry_armed (set_phase i p s) = retry_armed s"
  "janusInitialized (set_phase i p s) = janusInitialized s"
  "webrtc_supported (set_phase i p s) = webrtc_supported s"
  "sig_log (set_phase i p s) = sig_log s"
  by (cases "i < length (attempts s)"; simp add: set_phase_def nth_list_update list_update_beyond)+

lemma phase_set_phase:
  "i < length (attempts s) \<Longrightarrow>
     phase (attempts (set_phase i p s) ! j) = (if j = i then p else phase (attempts s ! j))"
  by (simp add: set_phase_def nth_list_update)

lemma log_fields [simp]:
  "attempts (log i m s) = attempts s" "playing (log i m s) = playing s"
  "retry_armed (log i m s) = retry_armed s" "janusInitialized (log i m s) = janusInitialized s"
  "webrtc_supported (log i m s) = webrtc_supported s"
  "sig_log (log i m s) = sig_log s @ [(i, m)]"
  by (simp_all add: log_def)

lemma set_answers_fields [simp]:
  "length (attempts (set_answers i bs s)) = length (attempts s)"
  "att_sub (attempts (set_answers i bs s) ! j) = att_sub (attempts s ! j)"
  "phase (attempts (set_answers i bs s) ! j) = phase (attempts s ! j)"
  "playing (set_answers i bs s) = playing s"
  "retry_armed (set_answers i bs s) = retry_armed s"
  "sig_log (set_answers i bs s) = sig_log s"
  by (cases "i < length (attempts s)"; simp add: set_answers_def nth_list_update list_update_beyond)+

lemma has_resolved_log [simp]: "has_resolved x (log i m s) = has_resolved x s"
  by (simp add: has_resolved_def)

lemma has_resolved_set_answers [simp]: "has_resolved x (set_answers i bs s) = has_resolved x s"
  by (simp add: has_resolved_def)

lemma has_resolved_set_phase:
  assumes "has_resolved x s" "resolved (phase (attempts s ! i)) \<longrightarrow> resolved p \<or> sub_of i s \<noteq> x"
  shows "has_resolved x (set_phase i p s)"
proof (cases "i < length (attempts s)")
  case True
  from assms(1) obtain j where j: "j < length (attempts s)" "att_sub (attempts s ! j) = x"
      "resolved (phase (attempts s ! j))" by (auto simp: has_resolved_def)
  show ?thesis
  proof (cases "j = i")
    case True
    with j assms(2) \<open>i < length (attempts s)\<close> show ?thesis
      by (auto simp: has_resolved_def phase_set_phase sub_of_def)
  next
    case False
    with j True show ?thesis by (auto simp: has_resolved_def phase_set_phase)
  qed
next
  case False
  then have "set_phase i p s = s" by (simp add: set_phase_def list_update_beyond)
  with assms(1) show ?thesis by simp
qed

lemma has_resolved_set_phase_new:
  "i < length (attempts s) \<Longrightarrow> resolved p \<Longrightarrow> has_resolved (sub_of i s) (set_phase i p s)"
  by (auto simp: has_resolved_def phase_set_phase sub_of_def)

lemma has_resolved_append:
  "has_resolved x s \<Longrightarrow> has_resolved x (s\<lparr>attempts := attempts s @ [a]\<rparr>)"
  by (auto simp: has_resolved_def nth_append)

lemma resolved_simps [simp]:
  "\<not> resolved Init_pending" "\<not> resolved Session_pending" "resolved Attach_pending"
  "resolved (Attached f)" "resolved Attach_failed" "resolved No_webrtc" "\<not> resolved Session_failed"
  "\<not> resolved Torn_down"
  by (simp_all add: resolved_def)

lemma sub_of_set_phase [simp]: "sub_of j (set_phase i p s) = sub_of j s"
  by (simp add: sub_of_def)

lemma sub_of_fields [simp]:
  "sub_of j (log i m s) = sub_of j s" "sub_of j (s\<lparr>playing := f\<rparr>) = sub_of j s"
  "sub_of j (s\<lparr>janusInitialized := b\<rparr>) = sub_of j s" "sub_of j (set_answers i bs s) = sub_of j s"
  by (simp_all add: sub_of_def)

lemma in_phase_resolved: "in_phase i p s \<Longrightarrow> \<not> resolved p \<Longrightarrow> \<not> resolved (phase (attempts s ! i))"
  by (simp add: in_phase_def)

subsection \<open>Invariant preservation\<close>

lemma lc_inv_log [simp]: "lc_inv (log i m s) = lc_inv s"
  by (simp add: lc_inv_def)

lemma lc_inv_set_answers [simp]: "lc_inv (set_answers i bs s) = lc_inv s"
  by (simp add: lc_inv_def)

lemma lc_inv_set_phase:
  "lc_inv s \<Longrightarrow> (resolved (phase (attempts s ! i)) \<longrightarrow> resolved p) \<Longrightarrow> lc_inv (set_phase i p s)"
  by (simp add: lc_inv_def has_resolved_set_phase)

lemma lc_inv_resolve_start:
  "lc_inv s \<Longrightarrow> has_resolved x s \<Longrightarrow> lc_inv (resolve_start x s)"
  by (simp add: lc_inv_def resolve_start_def has_resolved_def)

lemma lc_inv_resolve_new:
  assumes "lc_inv s" "i < length (attempts s)" "\<not> resolved (phase (attempts s ! i))" "resolved p"
  shows "lc_inv (resolve_start (sub_of i s) (log i m (set_phase i p s)))"
proof -
  from assms(1,3) have "lc_inv (log i m (set_phase i p s))" by (simp add: lc_inv_set_phase)
  moreover from assms(2,4) have "has_resolved (sub_of i s) (log i m (set_phase i p s))"
    by (simp add: has_resolved_set_phase_new)
  ultimately show ?thesis by (rule lc_inv_resolve_start)
qed

lemma has_resolved_playing [simp]: "has_resolved x (s\<lparr>playing := f\<rparr>) = has_resolved x s"
  by (simp add: has_resolved_def)

lemma lc_inv_flags [simp]:
  "lc_inv (s\<lparr>retry_armed := b\<rparr>) = lc_inv s"
  "lc_inv (s\<lparr>janusInitialized := b\<rparr>) = lc_inv s"
  by (simp_all add: lc_inv_def has_resolved_def)

lemma lc_inv_after_init:
  assumes "lc_inv s" "in_phase i Init_pending s"
  shows "lc_inv (after_init i s)"
proof -
  from assms(2) have i: "i < length (attempts s)" "\<not> resolved (phase (attempts s ! i))"
    by (simp_all add: in_phase_def)
  show ?thesis
  proof (cases "webrtc_supported s")
    case True
    with assms(1) i show ?thesis by (simp add: after_init_def lc_inv_set_phase)
  next
    case False
    from lc_inv_resolve_new [OF assms(1) i, of No_webrtc Sig_alert] False show ?thesis
      by (simp add: after_init_def)
  qed
qed

lemma lc_inv_startJanus: "lc_inv s \<Longrightarrow> lc_inv (startJanus x s)"
proof -
  assume inv: "lc_inv s"
  let ?s1 = "s\<lparr>attempts := attempts s @ [\<lparr>att_sub = x, phase = Init_pending, answers = []\<rparr>]\<rparr>"
  from inv have inv1: "lc_inv ?s1" by (simp add: lc_inv_def has_resolved_append)
  have "in_phase (length (attempts s)) Init_pending ?s1" by (simp add: in_phase_def)
  with inv1 have "lc_inv (after_init (length (attempts s)) ?s1)" by (rule lc_inv_after_init)
  with inv1 show ?thesis by (simp add: startJanus_def Let_def)
qed

lemma lc_inv_check_both: "lc_inv s \<Longrightarrow> lc_inv (check_both s)"
  by (simp add: check_both_def check_def lc_inv_startJanus)

lemma lc_inv_iceState: "lc_inv s \<Longrightarrow> lc_inv (iceState i st s)"
proof -
  assume inv: "lc_inv s"
  show ?thesis
  proof (cases "attached i s \<and> st = ''disconnected''")
    case True
    have "has_resolved x (set_phase i Torn_down s)" if "x \<noteq> sub_of i s" "playing s x" for x
      using that inv by (intro has_resolved_set_phase) (auto simp: lc_inv_def)
    with True show ?thesis by (simp add: iceState_def Let_def lc_inv_def)
  next
    case False
    then have "iceState i st s = s" by (simp only: iceState_def if_False)
    with inv show ?thesis by simp
  qed
qed

lemma lc_inv_handlers:
  assumes "lc_inv s"
  shows "lc_inv (init_done i s)" "lc_inv (session_success i s)" "lc_inv (session_error i s)"
    "lc_inv (attach_success i s)" "lc_inv (attach_error i s)" "lc_inv (list_reply i r s)"
    "lc_inv (watch_ack i s)" "lc_inv (onmessage i m j s)" "lc_inv (answer_created i k sdp s)"
    "lc_inv (answer_error i k s)" "lc_inv (onremotestream i s)"
proof -
  have jI: "lc_inv (s\<lparr>janusInitialized := True\<rparr>)" using assms by simp
  show "lc_inv (init_done i s)"
    using lc_inv_after_init [OF jI, of i] assms by (simp add: init_done_def in_phase_def)
  show "lc_inv (session_success i s)"
    using assms lc_inv_resolve_new [OF assms, of i Attach_pending Sig_attach]
    by (simp add: session_success_def in_phase_def)
  show "lc_inv (session_error i s)"
    using assms by (simp add: session_error_def in_phase_def lc_inv_set_phase)
  show "lc_inv (attach_success i s)" "lc_inv (attach_error i s)"
    using assms by (simp_all add: attach_success_def attach_error_def in_phase_def lc_inv_set_phase)
  show "lc_inv (list_reply i r s)"
    using assms by (auto simp: list_reply_def in_phase_def lc_inv_set_phase split: option.splits)
  show "lc_inv (watch_ack i s)"
    using assms by (auto simp: watch_ack_def lc_inv_set_phase split: attempt_phase.splits flow.splits)
  show "lc_inv (onmessage i m j s)" "lc_inv (answer_created i k sdp s)" "lc_inv (answer_error i k s)"
    "lc_inv (onremotestream i s)"
    using assms by (simp_all add: onmessage_def answer_created_def answer_error_def onremotestream_def
                         split: option.splits)
qed

lemma lc_step_inv: "lc_inv s \<Longrightarrow> lc_inv (lc_step s e)"
  by (cases e) (simp_all add: lc_inv_handlers lc_inv_iceState lc_inv_check_both preStartJanus_def)

lemma lc_run_append [simp]: "lc_run s (xs @ ys) = lc_run (lc_run s xs) ys"
  by (induction xs arbitrary: s) auto

lemma lc_inv_init [simp]: "lc_inv (lc_init w)"
  by (simp add: lc_inv_def lc_init_def)

subsection \<open>Lemmas on startJanus and the retry loop\<close>

text \<open>Once Janus is initialised and WebRTC is there, a call goes straight to
  creating the session.\<close>

lemma startJanus_ready:
  "janusInitialized s \<Longrightarrow> webrtc_supported s \<Longrightarrow>
     startJanus x s = s\<lparr>attempts := attempts s @ [\<lparr>att_sub = x, phase = Session_pending, answers = []\<rparr>]\<rparr>"
  by (simp add: startJanus_def after_init_def set_phase_def Let_def)

lemma startJanus_appends:
  "\<exists>a. attempts (startJanus x s) = attempts s @ [a] \<and> att_sub a = x"
  by (auto simp: startJanus_def after_init_def set_phase_def resolve_start_def Let_def)

lemma startJanus_playing_other:
  "y \<noteq> x \<Longrightarrow> playing (startJanus x s) y = playing s y"
  by (auto simp: startJanus_def after_init_def resolve_start_def Let_def sub_of_def nth_append)

lemma startJanus_flags [simp]:
  "retry_armed (startJanus x s) = retry_armed s"
  "webrtc_supported (startJanus x s) = webrtc_supported s"
  by (simp_all add: startJanus_def after_init_def resolve_start_def Let_def)

text \<open>\<^verbatim>\<open>check\<close> for another sub-stream neither touches this one's flag nor
  adds an attempt for it; \<^verbatim>\<open>check\<close> for a playing sub-stream does nothing.\<close>

lemma check_keeps_playing:
  assumes "playing s x"
  shows "playing (check y s) x \<and> (\<exists>as. attempts (check y s) = attempts s @ as \<and> (\<forall>a \<in> set as. att_sub a \<noteq> x))"
proof (cases "y = x")
  case True
  with assms show ?thesis by (simp add: check_def)
next
  case False
  obtain a where "attempts (startJanus y s) = attempts s @ [a]" "att_sub a = y"
    using startJanus_appends by blast
  with False assms show ?thesis by (auto simp: check_def startJanus_playing_other)
qed

lemma retry_ticks_keep_playing:
  assumes "playing s x"
  shows "playing (lc_run s (replicate n Retry_tick)) x \<and>
         (\<exists>as. attempts (lc_run s (replicate n Retry_tick)) = attempts s @ as \<and> (\<forall>a \<in> set as. att_sub a \<noteq> x))"
  using assms
proof (induction n arbitrary: s)
  case 0
  then show ?case by simp
next
  case (Suc n)
  have step: "playing (lc_step s Retry_tick) x \<and>
      (\<exists>as. attempts (lc_step s Retry_tick) = attempts s @ as \<and> (\<forall>a \<in> set as. att_sub a \<noteq> x))"
  proof (cases "retry_armed s")
    case True
    from check_keeps_playing [OF Suc.prems, of Video] obtain as1 where
      v: "playing (check Video s) x" "attempts (check Video s) = attempts s @ as1" "\<forall>a \<in> set as1. att_sub a \<noteq> x"
      by blast
    from check_keeps_playing [OF v(1), of Audio] obtain as2 where
      a: "playing (check Audio (check Video s)) x"
         "attempts (check Audio (check Video s)) = attempts (check Video s) @ as2" "\<forall>a \<in> set as2. att_sub a \<noteq> x"
      by blast
    from True v a show ?thesis by (auto simp: check_both_def intro!: exI [of _ "as1 @ as2"])
  next
    case False
    with Suc.prems show ?thesis by simp
  qed
  then obtain as where st: "playing (lc_step s Retry_tick) x"
      "attempts (lc_step s Retry_tick) = attempts s @ as" "\<forall>a \<in> set as. att_sub a \<noteq> x" by blast
  from Suc.IH [OF st(1)] obtain bs where
    "playing (lc_run (lc_step s Retry_tick) (replicate n Retry_tick)) x"
    "attempts (lc_run (lc_step s Retry_tick) (replicate n Retry_tick)) = attempts (lc_step s Retry_tick) @ bs"
    "\<forall>a \<in> set bs. att_sub a \<noteq> x" by blast
  with st show ?case by (auto intro!: exI [of _ "as @ bs"])
qed

text \<open>A retry tick starts a fresh attempt, at the session stage, for every
  sub-stream that is not playing.\<close>

lemma retry_starts_attempt:
  assumes "\<not> playing s x" "retry_armed s" "janusInitialized s" "webrtc_supported s"
  shows "\<exists>j. length (attempts s) \<le> j \<and> j < length (attempts (lc_step s Retry_tick)) \<and>
             attempts (lc_step s Retry_tick) ! j = \<lparr>att_sub = x, phase = Session_pending, answers = []\<rparr>"
proof -
  let ?new = "\<lambda>y. \<lparr>att_sub = y, phase = Session_pending, answers = []\<rparr>"
  have cv: "check Video s = (if playing s Video then s else s\<lparr>attempts := attempts s @ [?new Video]\<rparr>)"
    using assms(3,4) by (simp add: check_def startJanus_ready)
  let ?s1 = "check Video s"
  have fl: "janusInitialized ?s1" "webrtc_supported ?s1" "playing ?s1 = playing s"
    using assms(3,4) cv by simp_all
  have ca: "check Audio ?s1 =
      (if playing s Audio then ?s1 else ?s1\<lparr>attempts := attempts ?s1 @ [?new Audio]\<rparr>)"
    using fl by (simp add: check_def startJanus_ready)
  show ?thesis
  proof (cases x)
    case Video
    with assms(1,2) cv ca show ?thesis
      by (intro exI [of _ "length (attempts s)"]) (simp add: check_both_def nth_append)
  next
    case Audio
    with assms(1,2) cv ca show ?thesis
      by (intro exI [of _ "length (attempts ?s1)"]) (auto simp: check_both_def nth_append)
  qed
qed

lemma select_stream_Some [simp]: "select_stream n (Some xs) = find_stream n xs"
  by (simp add: select_stream_def find_stream_def)

lemma iceState_disconnect:
  assumes "attached i s"
  shows "iceState i ''disconnected'' s =
           (log i Sig_destroy (log i Sig_detach (set_phase i Torn_down s)))
             \<lparr>playing := (playing s)(sub_of i s := False)\<rparr>"
  using assms by (simp add: iceState_def Let_def)

lemma subs_of_set_phase: "sub_of i s \<noteq> y \<Longrightarrow> subs_of y (set_phase i p s) = subs_of y s"
  by (simp add: subs_of_def set_phase_def sub_of_def filter_list_update_other)

lemma subs_of_set_answers: "sub_of i s \<noteq> y \<Longrightarrow> subs_of y (set_answers i bs s) = subs_of y s"
  by (simp add: subs_of_def set_answers_def sub_of_def filter_list_update_other)

lemma subs_of_fields [simp]:
  "subs_of y (log i m s) = subs_of y s"
  "subs_of y (s\<lparr>playing := f\<rparr>) = subs_of y s"
  "subs_of y (s\<lparr>janusInitialized := b\<rparr>) = subs_of y s"
  "subs_of y (resolve_start x s) = subs_of y s"
  by (simp_all add: subs_of_def resolve_start_def)

lemma playing_resolve_other [simp]: "x \<noteq> y \<Longrightarrow> playing (resolve_start x s) y = playing s y"
  by (simp add: resolve_start_def)

lemma after_init_other:
  "sub_of i s \<noteq> y \<Longrightarrow> playing (after_init i s) y = playing s y \<and> subs_of y (after_init i s) = subs_of y s"
  by (simp add: after_init_def subs_of_set_phase)

lemma handlers_other:
  assumes "sub_of i s \<noteq> y"
  shows "playing (init_done i s) y = playing s y \<and> subs_of y (init_done i s) = subs_of y s"
    and "playing (session_success i s) y = playing s y \<and> subs_of y (session_success i s) = subs_of y s"
    and "playing (session_error i s) y = playing s y \<and> subs_of y (session_error i s) = subs_of y s"
    and "playing (attach_success i s) y = playing s y \<and> subs_of y (attach_success i s) = subs_of y s"
    and "playing (attach_error i s) y = playing s y \<and> subs_of y (attach_error i s) = subs_of y s"
    and "playing (list_reply i r s) y = playing s y \<and> subs_of y (list_reply i r s) = subs_of y s"
    and "playing (watch_ack i s) y = playing s y \<and> subs_of y (watch_ack i s) = subs_of y s"
    and "playing (onmessage i m j s) y = playing s y \<and> subs_of y (onmessage i m j s) = subs_of y s"
    and "playing (answer_created i k sdp s) y = playing s y \<and> subs_of y (answer_created i k sdp s) = subs_of y s"
    and "playing (answer_error i k s) y = playing s y \<and> subs_of y (answer_error i k s) = subs_of y s"
    and "playing (onremotestream i s) y = playing s y \<and> subs_of y (onremotestream i s) = subs_of y s"
    and "playing (iceState i st s) y = playing s y \<and> subs_of y (iceState i st s) = subs_of y s"
proof -
  have jI: "sub_of i (s\<lparr>janusInitialized := True\<rparr>) \<noteq> y" using assms by (simp add: sub_of_def)
  show "playing (init_done i s) y = playing s y \<and> subs_of y (init_done i s) = subs_of y s"
    using after_init_other [OF jI] by (simp add: init_done_def)
  show "playing (session_success i s) y = playing s y \<and> subs_of y (session_success i s) = subs_of y s"
    using assms by (simp add: session_success_def subs_of_set_phase)
  show "playing (session_error i s) y = playing s y \<and> subs_of y (session_error i s) = subs_of y s"
    "playing (attach_success i s) y = playing s y \<and> subs_of y (attach_success i s) = subs_of y s"
    "playing (attach_error i s) y = playing s y \<and> subs_of y (attach_error i s) = subs_of y s"
    using assms by (simp_all add: session_error_def attach_success_def attach_error_def subs_of_set_phase)
  show "playing (list_reply i r s) y = playing s y \<and> subs_of y (list_reply i r s) = subs_of y s"
    using assms by (simp add: list_reply_def subs_of_set_phase split: option.splits)
  show "playing (watch_ack i s) y = playing s y \<and> subs_of y (watch_ack i s) = subs_of y s"
    using assms by (simp add: watch_ack_def subs_of_set_phase split: attempt_phase.splits flow.splits)
  show "playing (onmessage i m j s) y = playing s y \<and> subs_of y (onmessage i m j s) = subs_of y s"
    "playing (answer_created i k sdp s) y = playing s y \<and> subs_of y (answer_created i k sdp s) = subs_of y s"
    "playing (answer_error i k s) y = playing s y \<and> subs_of y (answer_error i k s) = subs_of y s"
    "playing (onremotestream i s) y = playing s y \<and> subs_of y (onremotestream i s) = subs_of y s"
    using assms by (simp_all add: onmessage_def answer_created_def answer_error_def onremotestream_def
                                  subs_of_set_answers split: option.splits)
  show "playing (iceState i st s) y = playing s y \<and> subs_of y (iceState i st s) = subs_of y s"
    using assms by (simp add: iceState_def Let_def subs_of_set_phase)
qed

lemma attempt_fields_set_answers:
  "i < length (attempts s) \<Longrightarrow> answers (attempts (set_answers i bs s) ! i) = bs"
  by (simp add: set_answers_def)

lemma attached_fields [simp]:
  "attached i (log j m s) = attached i s" "attached i (set_answers j bs s) = attached i s"
  by (simp_all add: attached_def)

text \<open>What evaluating the lifecycle on concrete events needs.\<close>

lemmas lc_eval = lc_init_def lifecycle_defs startJanus_def log_def set_phase_def in_phase_def
  attached_def is_attached_def sub_of_def set_answers_def Let_def

subsection \<open>Lemmas on the spec's lifecycle\<close>

lemma session_move_refl [simp]: "session_move a a"
  by (simp add: session_move_def)

lemma phases_frame [simp]:
  "phases (log i m s) = phases s"
  "phases (resolve_start x s) = phases s"
  "phases (set_answers i bs s) = phases s"
  "phases (s\<lparr>janusInitialized := b\<rparr>) = phases s"
  "phases (s\<lparr>playing := f\<rparr>) = phases s"
  "phases (s\<lparr>retry_armed := r\<rparr>) = phases s"
  by (simp_all add: phases_def resolve_start_def set_answers_def map_update_same)

lemma phases_set_phase:
  "i < length (attempts s) \<Longrightarrow> phases (set_phase i p s) = (phases s)[i := (sub_of i s, p)]"
  by (simp add: phases_def set_phase_def map_update sub_of_def)

lemma follows_same: "phases s' = phases s \<Longrightarrow> session_follows s s'"
  by (simp add: session_follows_def Let_def list_all2_refl split_def)

lemma follows_append:
  assumes "phases s' = phases s @ new"
    and "list_all (\<lambda>(x, p). session_of p = S_Attaching \<or> session_of p = S_Disconnected) new"
  shows "session_follows s s'"
  using assms by (simp add: session_follows_def Let_def list_all2_refl split_def)

lemma startJanus_phases:
  "\<exists>p. phases (startJanus x s) = phases s @ [(x, p)] \<and>
       (session_of p = S_Attaching \<or> session_of p = S_Disconnected)"
  by (auto simp: startJanus_def after_init_def phases_def set_phase_def resolve_start_def Let_def)

lemma check_phases:
  "\<exists>new. phases (check x s) = phases s @ new \<and>
     list_all (\<lambda>(x, p). session_of p = S_Attaching \<or> session_of p = S_Disconnected) new"
proof (cases "playing s x")
  case True
  then show ?thesis by (intro exI [of _ "[]"]) (simp add: check_def)
next
  case False
  with startJanus_phases [of x s] show ?thesis by (auto simp: check_def)
qed

lemma check_both_phases:
  "\<exists>new. phases (check_both s) = phases s @ new \<and>
     list_all (\<lambda>(x, p). session_of p = S_Attaching \<or> session_of p = S_Disconnected) new"
  using check_phases [of Video s] check_phases [of Audio "check Video s"]
  by (auto simp: check_both_def)

lemma follows_frame [simp]:
  "session_follows s (log i m t) = session_follows s t"
  "session_follows s (resolve_start x t) = session_follows s t"
  "session_follows s (set_answers i bs t) = session_follows s t"
  "session_follows s (t\<lparr>playing := f\<rparr>) = session_follows s t"
  by (simp_all add: session_follows_def)

lemma follows_refl [simp]: "session_follows s s"
  by (rule follows_same) (rule refl)

lemma set_phase_initialized [simp]:
  "set_phase i p (s\<lparr>janusInitialized := b\<rparr>) = (set_phase i p s)\<lparr>janusInitialized := b\<rparr>"
  by (simp add: set_phase_def)

lemma follows_initialized [simp]:
  "session_follows s (t\<lparr>janusInitialized := b\<rparr>) = session_follows s t"
  by (simp add: session_follows_def)

lemma follows_set_phase_iff [simp]:
  "i < length (attempts s) \<Longrightarrow>
     session_follows s (set_phase i p s) = session_move (session_of (phase (attempts s ! i))) (session_of p)"
  by (auto simp: session_follows_def Let_def phases_set_phase list_all2_conv_all_nth nth_list_update
                 phases_def sub_of_def split_def set_phase_def)

lemma attached_may_disconnect [simp]:
  "S_Disconnected \<in> set (session_next (session_of (Attached f))) \<longleftrightarrow>
     session_of (Attached f) \<noteq> S_Disconnected"
  by (cases f) simp_all

subsection \<open>Lemmas on concurrent attempts\<close>

lemma tick_uninitialised:
  assumes "\<not> janusInitialized s" "\<not> playing s Video" "\<not> playing s Audio" "retry_armed s"
  shows "lc_step s Retry_tick =
           s\<lparr>attempts := attempts s @ [\<lparr>att_sub = Video, phase = Init_pending, answers = []\<rparr>,
                                       \<lparr>att_sub = Audio, phase = Init_pending, answers = []\<rparr>],
             sig_log := sig_log s @ [(length (attempts s), Sig_init), (Suc (length (attempts s)), Sig_init)]\<rparr>"
  using assms by (simp add: check_both_def check_def startJanus_def log_def Let_def)

lemma check_both_appends: "\<exists>as. attempts (check_both s) = attempts s @ as"
proof -
  obtain a where a: "attempts (check Video s) = attempts s @ a"
    using startJanus_appends [of Video s] by (cases "playing s Video") (auto simp: check_def)
  obtain b where "attempts (check Audio (check Video s)) = attempts (check Video s) @ b"
    using startJanus_appends [of Audio "check Video s"]
    by (cases "playing (check Video s) Audio") (auto simp: check_def)
  with a show ?thesis by (auto simp: check_both_def)
qed

lemma attached_check_both: "attached j s \<Longrightarrow> attached j (check_both s)"
  using check_both_appends [of s] by (auto simp: attached_def nth_append)

lemma check_both_starts:
  assumes "\<not> playing s x"
  shows "\<exists>k. length (attempts s) \<le> k \<and> k < length (attempts (check_both s)) \<and>
             att_sub (attempts (check_both s) ! k) = x"
proof (cases x)
  case Video
  obtain a where a: "attempts (startJanus Video s) = attempts s @ [a]" "att_sub a = Video"
    using startJanus_appends by blast
  obtain b where "attempts (check Audio (startJanus Video s)) = attempts (startJanus Video s) @ b"
    using startJanus_appends [of Audio "startJanus Video s"]
    by (cases "playing (startJanus Video s) Audio") (auto simp: check_def)
  with a assms Video show ?thesis
    by (intro exI [of _ "length (attempts s)"]) (simp add: check_both_def check_def nth_append)
next
  case Audio
  obtain b where b: "attempts (check Video s) = attempts s @ b"
    using startJanus_appends [of Video s] by (cases "playing s Video") (auto simp: check_def)
  have "\<not> playing (check Video s) Audio"
    using assms Audio by (simp add: check_def startJanus_playing_other)
  moreover obtain a where "attempts (startJanus Audio (check Video s)) = attempts (check Video s) @ [a]"
    "att_sub a = Audio" using startJanus_appends by blast
  ultimately show ?thesis using b Audio
    by (intro exI [of _ "length (attempts (check Video s))"]) (simp add: check_both_def check_def)
qed

subsection \<open>Properties\<close>

text \<open>
  C18. In every state the page can reach, a sub-stream is marked playing only
  while one of its \<^verbatim>\<open>startJanus\<close> attempts has resolved and has not been torn
  down: \<^verbatim>\<open>playing\<close> is set only by a resolved \<^verbatim>\<open>startJanus\<close> promise and
  cleared by the ICE teardown of an attempt.
\<close>

theorem lc_reachable_inv: "lc_reachable s \<Longrightarrow> lc_inv s"
proof (induction rule: lc_reachable.induct)
  case (init webrtc)
  show ?case by simp
next
  case (step s e)
  from step.IH show ?case by (rule lc_step_inv)
qed

text \<open>
  C19. The lifecycle refines the spec's session state machine: every event
  the page or the Janus library delivers keeps each attempt on its
  sub-stream and moves it along one edge of \<open>Idle \<rightarrow> Attaching \<rightarrow>
  Listing \<rightarrow> Watching \<rightarrow> Connected \<rightarrow> Disconnected\<close> (or leaves it), and
  every attempt it creates starts fresh; so no attempt skips a step (a watch
  only after a listing, connected only after a watch) and no ended attempt
  comes back.
\<close>

theorem lifecycle_follows_spec: "session_follows s (lc_step s e)"
proof (cases e)
  case Page_ready
  then show ?thesis using check_both_phases [of s]
    by (auto simp: preStartJanus_def intro: follows_append)
next
  case Retry_tick
  then show ?thesis using check_both_phases [of s]
    by (auto intro: follows_append)
qed (auto simp: lifecycle_defs in_phase_def session_move_def attached_def is_attached_def
          split: option.splits attempt_phase.splits flow.splits)

text \<open>
  C20. No retry when no stream matches: once an attempt's session is up, the
  sub-stream is marked playing before the stream list arrives; if the list is
  \<^verbatim>\<open>null\<close>, empty or has no matching description, the attempt ends, the
  sub-stream stays marked playing, and no number of 5 s ticks starts another
  attempt for it (the number of its attempts stays the same). The spec says the attempt fails and is retried on the next
  tick.
\<close>

theorem no_match_not_retried:
  assumes "in_phase i (Attached Listing) s" "sub_of i s = x" "playing s x"
    and "select_stream (stream_name x) r = None"
  shows "let s' = lc_run s (List_reply i r # replicate n Retry_tick) in
         phase (attempts s' ! i) = Attached Flow_ended \<and> playing s' x \<and>
         length (filter (\<lambda>a. att_sub a = x) (attempts s')) = length (filter (\<lambda>a. att_sub a = x) (attempts s))"
proof -
  let ?s1 = "set_phase i (Attached Flow_ended) s"
  from assms have s1: "lc_step s (List_reply i r) = ?s1" by (simp add: list_reply_def)
  have p1: "playing ?s1 x" using assms(3) by simp
  from retry_ticks_keep_playing [OF p1, of n] obtain as where
    r: "playing (lc_run ?s1 (replicate n Retry_tick)) x"
       "attempts (lc_run ?s1 (replicate n Retry_tick)) = attempts ?s1 @ as" "\<forall>a \<in> set as. att_sub a \<noteq> x"
    by blast
  from assms(1) have i: "i < length (attempts s)" by (simp add: in_phase_def)
  have "length (filter (\<lambda>a. att_sub a = x) (attempts ?s1)) = length (filter (\<lambda>a. att_sub a = x) (attempts s))"
    by (simp add: set_phase_def length_filter_list_update)
  moreover have "filter (\<lambda>a. att_sub a = x) as = []" using r(3) by (simp add: filter_empty_conv)
  ultimately show ?thesis using r i s1 by (simp add: Let_def nth_append phase_set_phase)
qed

text \<open>
  C21. Crash-only recovery: when the ICE connection of an attached attempt
  reports \<^verbatim>\<open>disconnected\<close>, its handle is detached and its session
  destroyed, the sub-stream is marked not playing, and the next 5 s tick starts
  a fresh attempt for it from the session stage (Janus being initialised).
\<close>

theorem disconnect_restarts:
  assumes "attached i s" "sub_of i s = x" "janusInitialized s" "webrtc_supported s" "retry_armed s"
  shows "let s1 = lc_step s (Ice_state i ''disconnected''); s2 = lc_step s1 Retry_tick in
         \<not> playing s1 x \<and> sig_log s1 = sig_log s @ [(i, Sig_detach), (i, Sig_destroy)] \<and>
         (\<exists>j. length (attempts s) \<le> j \<and> j < length (attempts s2) \<and>
              attempts s2 ! j = \<lparr>att_sub = x, phase = Session_pending, answers = []\<rparr>)"
proof -
  let ?s1 = "lc_step s (Ice_state i ''disconnected'')"
  have s1: "?s1 = (log i Sig_destroy (log i Sig_detach (set_phase i Torn_down s)))
                     \<lparr>playing := (playing s)(x := False)\<rparr>"
    using iceState_disconnect [OF assms(1)] assms(2) by simp
  then have "\<not> playing ?s1 x" "retry_armed ?s1" "janusInitialized ?s1" "webrtc_supported ?s1"
    "length (attempts ?s1) = length (attempts s)"
    using assms(3-5) by simp_all
  with retry_starts_attempt [of ?s1 x] s1 show ?thesis by (simp add: Let_def)
qed

text \<open>
  The attach sequence: an attempt whose session comes up marks its
  sub-stream playing and attaches the streaming plugin; once attached it
  requests the stream list, and given a list with a match it sends a watch
  request for the first matching stream, in this order.
\<close>

theorem attach_sequence:
  assumes "in_phase j Session_pending s" "sub_of j s = x" "find_stream (stream_name x) xs = Some item"
  shows "let s' = lc_run s [Session_ok j, Attach_ok j, List_reply j (Some xs)] in
         sig_log s' = sig_log s @ [(j, Sig_attach), (j, Sig_list), (j, Sig_watch (item_id item))] \<and>
         playing s' x \<and> phase (attempts s' ! j) = Attached (Watch_sent (item_id item))"
  using assms
  by (simp add: in_phase_def session_success_def attach_success_def list_reply_def resolve_start_def
                phase_set_phase Let_def)

text \<open>
  C22. Sub-streams recover independently: an event addressed to an attempt of
  one sub-stream (any callback of its session or plugin handle) changes neither
  the other sub-stream's playing flag nor any of the other's attempts.
\<close>

theorem other_stream_unaffected:
  assumes "target e = Some i" "sub_of i s \<noteq> y"
  shows "playing (lc_step s e) y = playing s y \<and> subs_of y (lc_step s e) = subs_of y s"
  using assms by (cases e) (simp_all add: handlers_other)

text \<open>
  C23. The matcher selects the first stream of the list whose description
  contains the requested name, compared case-insensitively (both sides
  lower-cased): exactly when the list splits as \<open>ys @ x # zs\<close> with \<open>x\<close>
  matching and no entry of \<open>ys\<close> matching.
\<close>

theorem find_stream_first:
  "find_stream n xs = Some x \<longleftrightarrow>
     (\<exists>ys zs. xs = ys @ x # zs \<and>
        sublist (js_toLowerCase n) (js_toLowerCase (description x)) \<and>
        (\<forall>y \<in> set ys. \<not> sublist (js_toLowerCase n) (js_toLowerCase (description y))))"
  by (simp add: find_stream_def find_split stream_matches_sublist)

text \<open>
  The spec's example: in the list [(1, "Office Cam"), (2, "Lobby Audio")]
  the name "audio" selects stream 2, and "camera" selects none, so no watch
  request follows.
\<close>

theorem select_stream_example:
  "select_stream ''audio''
     (Some [\<lparr>item_id = 1, description = ''Office Cam''\<rparr>, \<lparr>item_id = 2, description = ''Lobby Audio''\<rparr>]) =
     Some \<lparr>item_id = 2, description = ''Lobby Audio''\<rparr> \<and>
   select_stream ''camera''
     (Some [\<lparr>item_id = 1, description = ''Office Cam''\<rparr>, \<lparr>item_id = 2, description = ''Lobby Audio''\<rparr>]) =
     None"
  by code_simp

text \<open>
  C24. The stereo rewrite: for a stereo offer, an answer without
  \<^verbatim>\<open>stereo=1\<close> that carries \<^verbatim>\<open>useinbandfec=1\<close> has its first
  \<^verbatim>\<open>useinbandfec=1\<close> (and only that one) rewritten to
  \<^verbatim>\<open>useinbandfec=1;stereo=1\<close>.
\<close>

theorem customizeSdp_adds_stereo:
  assumes "\<not> sublist ''stereo=1'' answer" "sublist ''useinbandfec=1'' answer"
  shows "\<exists>a b. answer = a @ ''useinbandfec=1'' @ b \<and>
               customizeSdp True answer = a @ ''useinbandfec=1;stereo=1'' @ b \<and>
               (\<forall>a' b'. answer = a' @ ''useinbandfec=1'' @ b' \<longrightarrow> length a \<le> length a')"
proof -
  from assms(1) have "customizeSdp True answer =
      js_replace answer ''useinbandfec=1'' ''useinbandfec=1;stereo=1''"
    by (simp only: customizeSdp_sublist simp_thms if_True)
  with js_replace_first [OF assms(2), of "''useinbandfec=1;stereo=1''"] show ?thesis
    by (simp only:)
qed

text \<open>
  C25. When the rewrite leaves the answer alone: for a non-stereo offer, for an
  answer that already says \<^verbatim>\<open>stereo=1\<close>, and for an answer without
  \<^verbatim>\<open>useinbandfec=1\<close>, even when the offer is stereo. The spec states the
  rewrite in terms of the offer carrying \<^verbatim>\<open>useinbandfec=1\<close>; the code looks
  for it in the answer.
\<close>

theorem customizeSdp_unchanged:
  "customizeSdp False sdp = sdp \<and>
   (sublist ''stereo=1'' sdp \<longrightarrow> customizeSdp st sdp = sdp) \<and>
   (\<not> sublist ''useinbandfec=1'' sdp \<longrightarrow> customizeSdp st sdp = sdp)"
  by (simp add: customizeSdp_sublist js_replace_absent)

text \<open>The rewrite is idempotent.\<close>

theorem customizeSdp_idem: "customizeSdp st (customizeSdp st sdp) = customizeSdp st sdp"
proof (cases "sublist ''useinbandfec=1'' sdp")
  case True
  from customizeSdp_present [OF True, of st] show ?thesis
  proof
    assume "sublist ''stereo=1'' (customizeSdp st sdp)"
    then show ?thesis by (simp only: customizeSdp_sublist [of st "customizeSdp st sdp"] simp_thms if_False)
  next
    assume "customizeSdp st sdp = sdp"
    then show ?thesis by simp
  qed
next
  case False
  then show ?thesis by (simp add: customizeSdp_absent)
qed

text \<open>
  C26. Answering an offer: a plugin message that is not an error and carries
  an offer starts \<^verbatim>\<open>createAnswer\<close>; when the answer is created it is sent
  with the \<^verbatim>\<open>start\<close> request, rewritten according to whether the offer
  carried \<^verbatim>\<open>stereo=1\<close>.
\<close>

theorem answer_customized:
  assumes "attached i s" "has_status m \<or> \<not> has_error m"
  shows "sig_log (lc_run s [Plugin_message i m (Some offer),
                            Answer_created i (length (answers (attempts s ! i))) answer]) =
         sig_log s @ [(i, Sig_create_answer),
                      (i, Sig_start (customizeSdp (sublist ''stereo=1'' offer) answer))]"
proof -
  from assms(1) have i: "i < length (attempts s)" by (simp add: attached_def)
  let ?s1 = "log i Sig_create_answer
               (set_answers i (answers (attempts s ! i) @ [sublist ''stereo=1'' offer]) s)"
  from assms have "lc_step s (Plugin_message i m (Some offer)) = ?s1"
    by (auto simp: onmessage_def)
  moreover from i have "answers (attempts ?s1 ! i) = answers (attempts s ! i) @ [sublist ''stereo=1'' offer]"
    by (simp add: attempt_fields_set_answers)
  ultimately show ?thesis using assms(1)
    by (simp add: answer_created_def)
qed

text \<open>
  An error message from the plugin (an \<^verbatim>\<open>error\<close> without a result
  status) is dropped whole: an offer it carries is not answered.
\<close>

theorem error_message_dropped:
  "\<not> has_status m \<Longrightarrow> has_error m \<Longrightarrow> lc_step s (Plugin_message i m jsep) = s"
  by (simp add: onmessage_def)

text \<open>
  C27. \<^verbatim>\<open>Janus.init\<close> is not shared: until its first call has called
  back, every 5 s tick that finds both sub-streams not playing starts a new
  attempt for each, and each new attempt calls \<^verbatim>\<open>Janus.init\<close> again; after
  \<open>k\<close> such ticks there are \<open>2k\<close> more pending attempts and \<open>2k\<close> more
  init calls.
\<close>

theorem init_not_shared:
  assumes "\<not> janusInitialized s" "\<not> playing s Video" "\<not> playing s Audio" "retry_armed s"
  shows "attempts (lc_run s (replicate k Retry_tick)) =
           attempts s @ concat (replicate k [\<lparr>att_sub = Video, phase = Init_pending, answers = []\<rparr>,
                                            \<lparr>att_sub = Audio, phase = Init_pending, answers = []\<rparr>]) \<and>
         sig_log (lc_run s (replicate k Retry_tick)) =
           sig_log s @ map (\<lambda>i. (i, Sig_init)) [length (attempts s)..<length (attempts s) + 2 * k]"
  using assms
proof (induction k arbitrary: s)
  case 0
  then show ?case by simp
next
  case (Suc k)
  define n where "n = length (attempts s)"
  define s1 where "s1 = s\<lparr>attempts := attempts s @ [\<lparr>att_sub = Video, phase = Init_pending, answers = []\<rparr>,
                                       \<lparr>att_sub = Audio, phase = Init_pending, answers = []\<rparr>],
             sig_log := sig_log s @ [(n, Sig_init), (Suc n, Sig_init)]\<rparr>"
  have t: "lc_step s Retry_tick = s1"
    unfolding s1_def n_def by (rule tick_uninitialised [OF Suc.prems])
  have h: "\<not> janusInitialized s1" "\<not> playing s1 Video" "\<not> playing s1 Audio" "retry_armed s1"
    using Suc.prems by (simp_all add: s1_def)
  have run: "lc_run s (replicate (Suc k) Retry_tick) = lc_run s1 (replicate k Retry_tick)"
    by (simp del: lc_step.simps add: t)
  have len: "length (attempts s1) = Suc (Suc n)" by (simp add: s1_def n_def)
  have up: "[n..<n + 2 * Suc k] = n # Suc n # [Suc (Suc n)..<Suc (Suc n) + 2 * k]"
    by (simp add: upt_conv_Cons)
  show ?case unfolding n_def [symmetric] run up
    using Suc.IH [OF h] len by (simp add: s1_def)
qed

text \<open>
  C28. A failed session creation is retried: the rejected \<^verbatim>\<open>startJanus\<close>
  promise leaves the sub-stream not playing, and the next 5 s tick starts a
  fresh attempt for it.
\<close>

theorem session_error_retried:
  assumes "in_phase i Session_pending s" "sub_of i s = x" "\<not> playing s x"
    and "janusInitialized s" "webrtc_supported s" "retry_armed s"
  shows "let s1 = lc_step s (Session_error i) in
         phase (attempts s1 ! i) = Session_failed \<and> \<not> playing s1 x \<and>
         (\<exists>j. length (attempts s) \<le> j \<and> j < length (attempts (lc_step s1 Retry_tick)) \<and>
              attempts (lc_step s1 Retry_tick) ! j = \<lparr>att_sub = x, phase = Session_pending, answers = []\<rparr>)"
proof -
  let ?s1 = "set_phase i Session_failed s"
  from assms(1) have s1: "lc_step s (Session_error i) = ?s1" by (simp add: session_error_def)
  from assms(1) have ph: "phase (attempts ?s1 ! i) = Session_failed"
    by (simp add: in_phase_def phase_set_phase)
  from assms have "\<exists>j. length (attempts ?s1) \<le> j \<and> j < length (attempts (lc_step ?s1 Retry_tick)) \<and>
      attempts (lc_step ?s1 Retry_tick) ! j = \<lparr>att_sub = x, phase = Session_pending, answers = []\<rparr>"
    by (intro retry_starts_attempt) simp_all
  with s1 ph assms(3) show ?thesis by (simp add: Let_def)
qed

text \<open>
  C29. Concurrent attempts for one sub-stream are not prevented: when two
  attached attempts serve the same sub-stream and one of them disconnects,
  the sub-stream is marked not playing although the other is still attached,
  and the next tick starts another negotiation for it beside the survivor.
\<close>

theorem duplicate_negotiations:
  assumes "attached i s" "attached j s" "i \<noteq> j" "sub_of i s = x" "sub_of j s = x" "retry_armed s"
  shows "let s1 = lc_step s (Ice_state i ''disconnected''); s2 = lc_step s1 Retry_tick in
         \<not> playing s1 x \<and> attached j s2 \<and>
         (\<exists>k. length (attempts s) \<le> k \<and> k < length (attempts s2) \<and> sub_of k s2 = x)"
proof -
  define s1 where "s1 = lc_step s (Ice_state i ''disconnected'')"
  have s1: "s1 = (log i Sig_destroy (log i Sig_detach (set_phase i Torn_down s)))
                    \<lparr>playing := (playing s)(x := False)\<rparr>"
    using assms(1,4) by (simp add: s1_def iceState_disconnect)
  have off: "\<not> playing s1 x" and arm: "retry_armed s1"
    and len: "length (attempts s1) = length (attempts s)"
    using assms(6) by (simp_all add: s1)
  have att: "attached j s1"
    using assms(1-3) by (simp add: s1 attached_def phase_set_phase)
  from check_both_starts [OF off] obtain k where
    k: "length (attempts s1) \<le> k" "k < length (attempts (check_both s1))"
    "att_sub (attempts (check_both s1) ! k) = x" by blast
  have s2: "lc_step s1 Retry_tick = check_both s1" using arm by simp
  show ?thesis unfolding Let_def s1_def [symmetric] s2
    using k len by (intro conjI off attached_check_both att exI [of _ k]) (simp_all add: sub_of_def)
qed

subsection \<open>Witnesses\<close>

lemma lc_reachable_inv_witness:
  "lc_reachable (lc_step (lc_init True) Page_ready) \<and> lc_inv (lc_step (lc_init True) Page_ready)"
proof -
  have r: "lc_reachable (lc_step (lc_init True) Page_ready)"
    by (rule lc_reachable.step [OF lc_reachable.init])
  from r lc_reachable_inv [OF r] show ?thesis by simp
qed

lemma no_match_not_retried_witness:
  "let s = lc_run (lc_init True) [Page_ready, Init_done 0, Session_ok 0, Attach_ok 0] in
   in_phase 0 (Attached Listing) s \<and> sub_of 0 s = Video \<and> playing s Video \<and>
   select_stream (stream_name Video) (Some []) = None \<and>
   (let s' = lc_run s (List_reply 0 (Some []) # replicate 2 Retry_tick) in
    phase (attempts s' ! 0) = Attached Flow_ended \<and> playing s' Video \<and>
    length (filter (\<lambda>a. att_sub a = Video) (attempts s')) =
      length (filter (\<lambda>a. att_sub a = Video) (attempts s)))"
proof -
  define s where "s = lc_run (lc_init True) [Page_ready, Init_done 0, Session_ok 0, Attach_ok 0]"
  have h: "in_phase 0 (Attached Listing) s" "sub_of 0 s = Video" "playing s Video"
    "select_stream (stream_name Video) (Some []) = None"
    by (simp_all add: s_def lc_eval find_stream_def)
  show ?thesis unfolding Let_def s_def [symmetric]
    using no_match_not_retried [OF h, of 2, unfolded Let_def] h by blast
qed

lemma disconnect_restarts_witness:
  "let s = lc_run (lc_init True) [Page_ready, Init_done 0, Session_ok 0, Attach_ok 0] in
   attached 0 s \<and> sub_of 0 s = Video \<and> janusInitialized s \<and> webrtc_supported s \<and> retry_armed s \<and>
   (let s1 = lc_step s (Ice_state 0 ''disconnected''); s2 = lc_step s1 Retry_tick in
    \<not> playing s1 Video \<and> sig_log s1 = sig_log s @ [(0, Sig_detach), (0, Sig_destroy)] \<and>
    (\<exists>j. length (attempts s) \<le> j \<and> j < length (attempts s2) \<and>
         attempts s2 ! j = \<lparr>att_sub = Video, phase = Session_pending, answers = []\<rparr>))"
proof -
  define s where "s = lc_run (lc_init True) [Page_ready, Init_done 0, Session_ok 0, Attach_ok 0]"
  have h: "attached 0 s" "sub_of 0 s = Video" "janusInitialized s" "webrtc_supported s" "retry_armed s"
    by (simp_all add: s_def lc_eval)
  show ?thesis unfolding Let_def s_def [symmetric]
    using disconnect_restarts [OF h, unfolded Let_def] h by blast
qed

lemma attach_sequence_witness:
  "let s = lc_run (lc_init True) [Page_ready, Init_done 0] in
   in_phase 0 Session_pending s \<and> sub_of 0 s = Video \<and>
   find_stream (stream_name Video) [\<lparr>item_id = 7, description = ''Desktop VIDEO''\<rparr>] =
     Some \<lparr>item_id = 7, description = ''Desktop VIDEO''\<rparr> \<and>
   (let s' = lc_run s [Session_ok 0, Attach_ok 0, List_reply 0 (Some [\<lparr>item_id = 7, description = ''Desktop VIDEO''\<rparr>])] in
    sig_log s' = sig_log s @ [(0, Sig_attach), (0, Sig_list), (0, Sig_watch 7)] \<and>
    playing s' Video \<and> phase (attempts s' ! 0) = Attached (Watch_sent 7))"
proof -
  define s where "s = lc_run (lc_init True) [Page_ready, Init_done 0]"
  have h: "in_phase 0 Session_pending s" "sub_of 0 s = Video"
    by (simp_all add: s_def lc_eval)
  have f: "find_stream (stream_name Video) [\<lparr>item_id = 7, description = ''Desktop VIDEO''\<rparr>] =
     Some \<lparr>item_id = 7, description = ''Desktop VIDEO''\<rparr>"
    by code_simp
  show ?thesis unfolding Let_def s_def [symmetric]
    using attach_sequence [OF h f, unfolded Let_def] h f by simp
qed

lemma other_stream_unaffected_witness:
  "let s = lc_run (lc_init True) [Page_ready, Init_done 0, Session_ok 0, Attach_ok 0] in
   target (Ice_state 0 ''disconnected'') = Some 0 \<and> sub_of 0 s \<noteq> Audio \<and>
   playing (lc_step s (Ice_state 0 ''disconnected'')) Audio = playing s Audio \<and>
   subs_of Audio (lc_step s (Ice_state 0 ''disconnected'')) = subs_of Audio s"
proof -
  define s where "s = lc_run (lc_init True) [Page_ready, Init_done 0, Session_ok 0, Attach_ok 0]"
  have h: "target (Ice_state 0 ''disconnected'') = Some 0" "sub_of 0 s \<noteq> Audio"
    by (simp_all add: s_def lc_eval)
  show ?thesis unfolding Let_def s_def [symmetric]
    using other_stream_unaffected [OF h] h by blast
qed

lemma find_stream_first_witness:
  "find_stream ''audio'' [\<lparr>item_id = 1, description = ''Office Cam''\<rparr>, \<lparr>item_id = 2, description = ''Lobby Audio''\<rparr>] =
     Some \<lparr>item_id = 2, description = ''Lobby Audio''\<rparr> \<and>
   (\<exists>ys zs. [\<lparr>item_id = 1, description = ''Office Cam''\<rparr>, \<lparr>item_id = 2, description = ''Lobby Audio''\<rparr>] =
              ys @ \<lparr>item_id = 2, description = ''Lobby Audio''\<rparr> # zs \<and>
            sublist (js_toLowerCase ''audio'') (js_toLowerCase ''Lobby Audio'') \<and>
            (\<forall>y \<in> set ys. \<not> sublist (js_toLowerCase ''audio'') (js_toLowerCase (description y))))"
proof -
  have f: "find_stream ''audio'' [\<lparr>item_id = 1, description = ''Office Cam''\<rparr>, \<lparr>item_id = 2, description = ''Lobby Audio''\<rparr>] =
     Some \<lparr>item_id = 2, description = ''Lobby Audio''\<rparr>" by code_simp
  with find_stream_first show ?thesis by simp
qed

lemma customizeSdp_adds_stereo_witness:
  "\<not> sublist ''stereo=1'' ''a=fmtp:111 useinbandfec=1'' \<and> sublist ''useinbandfec=1'' ''a=fmtp:111 useinbandfec=1'' \<and>
   (\<exists>a b. ''a=fmtp:111 useinbandfec=1'' = a @ ''useinbandfec=1'' @ b \<and>
          customizeSdp True ''a=fmtp:111 useinbandfec=1'' = a @ ''useinbandfec=1;stereo=1'' @ b \<and>
          (\<forall>a' b'. ''a=fmtp:111 useinbandfec=1'' = a' @ ''useinbandfec=1'' @ b' \<longrightarrow> length a \<le> length a'))"
proof -
  have h: "\<not> sublist ''stereo=1'' ''a=fmtp:111 useinbandfec=1''" "sublist ''useinbandfec=1'' ''a=fmtp:111 useinbandfec=1''"
    by code_simp+
  from customizeSdp_adds_stereo [OF h] h show ?thesis by blast
qed

lemma customizeSdp_unchanged_witness:
  "customizeSdp False ''a=fmtp:111 useinbandfec=1'' = ''a=fmtp:111 useinbandfec=1'' \<and>
   sublist ''stereo=1'' ''a=fmtp:111 stereo=1'' \<and> customizeSdp True ''a=fmtp:111 stereo=1'' = ''a=fmtp:111 stereo=1'' \<and>
   \<not> sublist ''useinbandfec=1'' ''a=fmtp:111 minptime=10'' \<and>
   customizeSdp True ''a=fmtp:111 minptime=10'' = ''a=fmtp:111 minptime=10''"
proof -
  have h: "sublist ''stereo=1'' ''a=fmtp:111 stereo=1''" "\<not> sublist ''useinbandfec=1'' ''a=fmtp:111 minptime=10''"
    by code_simp+
  from customizeSdp_unchanged [of "''a=fmtp:111 useinbandfec=1''"]
       customizeSdp_unchanged [of "''a=fmtp:111 stereo=1''" True]
       customizeSdp_unchanged [of "''a=fmtp:111 minptime=10''" True] h
  show ?thesis by blast
qed

lemma answer_customized_witness:
  "let s = lc_run (lc_init True) [Page_ready, Init_done 0, Session_ok 0, Attach_ok 0] in
   attached 0 s \<and> (has_status \<lparr>has_status = False, has_error = False\<rparr> \<or> \<not> has_error \<lparr>has_status = False, has_error = False\<rparr>) \<and>
   sig_log (lc_run s [Plugin_message 0 \<lparr>has_status = False, has_error = False\<rparr> (Some ''a=fmtp:111 stereo=1;useinbandfec=1''),
                      Answer_created 0 (length (answers (attempts s ! 0))) ''a=fmtp:111 useinbandfec=1'']) =
   sig_log s @ [(0, Sig_create_answer),
                (0, Sig_start (customizeSdp (sublist ''stereo=1'' ''a=fmtp:111 stereo=1;useinbandfec=1'') ''a=fmtp:111 useinbandfec=1''))]"
proof -
  define s where "s = lc_run (lc_init True) [Page_ready, Init_done 0, Session_ok 0, Attach_ok 0]"
  have h: "attached 0 s" "has_status \<lparr>has_status = False, has_error = False\<rparr> \<or> \<not> has_error \<lparr>has_status = False, has_error = False\<rparr>"
    by (simp_all add: s_def lc_eval)
  show ?thesis unfolding Let_def s_def [symmetric]
    using answer_customized [OF h] h by blast
qed

lemma error_message_dropped_witness:
  "\<not> has_status \<lparr>has_status = False, has_error = True\<rparr> \<and> has_error \<lparr>has_status = False, has_error = True\<rparr> \<and>
   lc_step (lc_init True) (Plugin_message 0 \<lparr>has_status = False, has_error = True\<rparr> (Some ''v=0'')) = lc_init True"
  using error_message_dropped [of "\<lparr>has_status = False, has_error = True\<rparr>" "lc_init True" 0 "Some ''v=0''"]
  by simp

lemma session_error_retried_witness:
  "let s = lc_run (lc_init True) [Page_ready, Init_done 0] in
   in_phase 0 Session_pending s \<and> sub_of 0 s = Video \<and> \<not> playing s Video \<and>
   janusInitialized s \<and> webrtc_supported s \<and> retry_armed s \<and>
   (let s1 = lc_step s (Session_error 0) in
    phase (attempts s1 ! 0) = Session_failed \<and> \<not> playing s1 Video \<and>
    (\<exists>j. length (attempts s) \<le> j \<and> j < length (attempts (lc_step s1 Retry_tick)) \<and>
         attempts (lc_step s1 Retry_tick) ! j = \<lparr>att_sub = Video, phase = Session_pending, answers = []\<rparr>))"
proof -
  define s where "s = lc_run (lc_init True) [Page_ready, Init_done 0]"
  have h: "in_phase 0 Session_pending s" "sub_of 0 s = Video" "\<not> playing s Video"
    "janusInitialized s" "webrtc_supported s" "retry_armed s"
    by (simp_all add: s_def lc_eval)
  show ?thesis unfolding Let_def s_def [symmetric]
    using session_error_retried [OF h, unfolded Let_def] h by blast
qed

lemma init_not_shared_witness:
  "let s = lc_step (lc_init True) Page_ready in
   \<not> janusInitialized s \<and> \<not> playing s Video \<and> \<not> playing s Audio \<and> retry_armed s \<and>
   attempts (lc_run s (replicate 1 Retry_tick)) =
     attempts s @ [\<lparr>att_sub = Video, phase = Init_pending, answers = []\<rparr>,
                   \<lparr>att_sub = Audio, phase = Init_pending, answers = []\<rparr>] \<and>
   sig_log (lc_run s (replicate 1 Retry_tick)) = sig_log s @ [(2, Sig_init), (3, Sig_init)]"
proof -
  define s where "s = lc_step (lc_init True) Page_ready"
  have h: "\<not> janusInitialized s" "\<not> playing s Video" "\<not> playing s Audio" "retry_armed s"
    and n: "length (attempts s) = 2"
    by (simp_all add: s_def lc_eval)
  show ?thesis unfolding Let_def s_def [symmetric]
    using init_not_shared [OF h, of 1] h n by (simp add: numeral_2_eq_2 numeral_3_eq_3)
qed

lemma duplicate_negotiations_witness:
  "let s = lc_run (lc_init True)
             [Page_ready, Retry_tick, Init_done 0, Init_done 2, Session_ok 0, Session_ok 2,
              Attach_ok 0, Attach_ok 2] in
   attached 0 s \<and> attached 2 s \<and> sub_of 0 s = Video \<and> sub_of 2 s = Video \<and> retry_armed s \<and>
   \<not> playing (lc_step s (Ice_state 0 ''disconnected'')) Video \<and>
   attached 2 (lc_step (lc_step s (Ice_state 0 ''disconnected'')) Retry_tick)"
proof -
  define s where "s = lc_run (lc_init True)
             [Page_ready, Retry_tick, Init_done 0, Init_done 2, Session_ok 0, Session_ok 2,
              Attach_ok 0, Attach_ok 2]"
  have h: "attached 0 s" "attached 2 s" "sub_of 0 s = Video" "sub_of 2 s = Video" "retry_armed s"
    by (simp_all add: s_def lc_eval)
  show ?thesis unfolding Let_def s_def [symmetric]
    using duplicate_negotiations [OF h(1,2) _ h(3,4) h(5)] h by (simp add: Let_def)
qed

end
