(* ===== verification/Page.thy ===== *)
theory Page
  imports InputController JsBuiltins
begin
text \<open>
  The page body of \<^verbatim>\<open>src/app/html/index.js\<close> (the async function of lines
  254--483) apart from the stream lifecycle: the query-string parser
  (\<open>parse_param\<close>, \<open>parse_query\<close>), the presentation flags and the volume
  initialisation read from it, \<^verbatim>\<open>displayPlural\<close> and \<^verbatim>\<open>iconHtml\<close>, the
  \<^verbatim>\<open>info\<close> handler that authorises the input controller (\<open>on_info\<close>) and the
  toggle button (\<open>toggle_click\<close>). The page's state extends the controller's
  world with the socket's id and the two elements the handler writes;
  \<open>page_step\<close> delivers one event to the page, and \<open>page_reachable\<close> is the
  set of states reachable from page load.
\<close>


section \<open>Definitions\<close>

subsection \<open>Query parameters\<close>

text \<open>
  A parameter without \<^verbatim>\<open>=\<close> holds \<^verbatim>\<open>true\<close>; otherwise it holds the text between
  the first and the second \<^verbatim>\<open>=\<close> (lines 258--265). Assigning to the key
  \<^verbatim>\<open>__proto__\<close> of a plain object runs the prototype setter, which ignores a
  value that is not an object, so that key is never stored.
\<close>

datatype qval = QTrue | QStr string

definition js_obj_set :: "(string \<rightharpoonup> 'v) \<Rightarrow> string \<Rightarrow> 'v \<Rightarrow> (string \<rightharpoonup> 'v)" where
  "js_obj_set m k v = (if k = ''__proto__'' then m else m(k \<mapsto> v))"

definition parse_param :: "(string \<rightharpoonup> qval) \<Rightarrow> string \<Rightarrow> (string \<rightharpoonup> qval)" where
  "parse_param params paramStr =
     (let param = js_split CHR ''='' paramStr in
      if length param = 1 then js_obj_set params (param ! 0) QTrue
      else if 1 < length param then js_obj_set params (param ! 0) (QStr (param ! 1))
      else params)"

definition parse_query :: "string \<Rightarrow> (string \<rightharpoonup> qval)" where
  "parse_query search = foldl parse_param Map.empty (js_split CHR ''&'' (drop 1 search))"

text \<open>
  The query strings the parser reads back: parameters joined by \<^verbatim>\<open>&\<close>,
  each a bare key or \<^verbatim>\<open>key=value\<close>, with no \<^verbatim>\<open>&\<close> or \<^verbatim>\<open>=\<close> inside keys
  and values and no \<^verbatim>\<open>__proto__\<close> key.
\<close>

definition print_param :: "string \<times> qval \<Rightarrow> string" where
  "print_param kv = (case kv of (k, QTrue) \<Rightarrow> k | (k, QStr v) \<Rightarrow> k @ ''='' @ v)"

definition print_query :: "(string \<times> qval) list \<Rightarrow> string" where
  "print_query kvs = CHR ''?'' # js_join CHR ''&'' (map print_param kvs)"

definition query_safe :: "string \<times> qval \<Rightarrow> bool" where
  "query_safe kv =
     (case kv of (k, v) \<Rightarrow>
        CHR ''&'' \<notin> set k \<and> CHR ''='' \<notin> set k \<and> k \<noteq> ''__proto__'' \<and>
        (case v of QTrue \<Rightarrow> True | QStr w \<Rightarrow> CHR ''&'' \<notin> set w \<and> CHR ''='' \<notin> set w))"

text \<open>JavaScript truthiness of a parameter: absent and the empty string are false.\<close>

definition qtruthy :: "qval option \<Rightarrow> bool" where
  "qtruthy v = (case v of None \<Rightarrow> False | Some QTrue \<Rightarrow> True | Some (QStr s) \<Rightarrow> s \<noteq> [])"

text \<open>Lines 275--278: the body class and the CSS filter; a later flag overrides an earlier one.\<close>

definition body_class :: "(string \<rightharpoonup> qval) \<Rightarrow> string option" where
  "body_class qp = (if qtruthy (qp ''hideControls'') then Some ''hide-controls'' else None)"

definition body_filter :: "(string \<rightharpoonup> qval) \<Rightarrow> string option" where
  "body_filter qp =
     (let f = (if qtruthy (qp ''grayscale'') then Some ''grayscale(1)'' else None);
          f = (if qtruthy (qp ''sepia'') then Some ''sepia(1)'' else f)
      in if qtruthy (qp ''invert'') then Some ''invert(1)'' else f)"

text \<open>
  Lines 304--311: \<^verbatim>\<open>Number(queryParams.volume)\<close> is applied when it lies in
  [0, 1], 0.7 is applied when the parameter is absent, and otherwise the
  element keeps its volume. \<^verbatim>\<open>Number(true)\<close> is 1. The audio element's own
  default volume is 1 (HTML media elements start at full volume).
\<close>

definition qval_Number :: "qval \<Rightarrow> jsnum" where
  "qval_Number v = (case v of QTrue \<Rightarrow> JFin 1 | QStr s \<Rightarrow> js_Number s)"

definition init_volume :: "(string \<rightharpoonup> qval) \<Rightarrow> rat option" where
  "init_volume qp =
     (case qp ''volume'' of
        None \<Rightarrow> Some (7 / 10)
      | Some v \<Rightarrow> (case qval_Number v of
                    JFin r \<Rightarrow> if 0 \<le> r \<and> r \<le> 1 then Some r else None
                  | _ \<Rightarrow> None))"

definition audio_volume :: "(string \<rightharpoonup> qval) \<Rightarrow> rat" where
  "audio_volume qp = (case init_volume qp of Some r \<Rightarrow> r | None \<Rightarrow> 1)"

subsection \<open>Labels\<close>

definition displayPlural :: "int \<Rightarrow> string \<Rightarrow> string option \<Rightarrow> string" where
  "displayPlural n singular plural =
     js_int_toString n @ '' '' @
     (if n = 1 then singular else (case plural of Some p \<Rightarrow> p | None \<Rightarrow> singular @ ''s''))"

definition iconHtml :: "string \<Rightarrow> string" where
  \<open>iconHtml icon = ''<i class="material-icons">'' @ icon @ ''</i> ''\<close>

subsection \<open>The page state and the info handler\<close>

text \<open>
  The \<^verbatim>\<open>info\<close> payload (spec section 6). \<^verbatim>\<open>controlsOwner\<close> is a socket id or
  \<^verbatim>\<open>null\<close>; \<^verbatim>\<open>socket.id\<close> is a string while connected and \<^verbatim>\<open>undefined\<close>
  otherwise. Both are \<open>string option\<close>, and the loose comparison
  \<^verbatim>\<open>controlsOwner == socket.id\<close> (where \<^verbatim>\<open>null == undefined\<close>) is equality
  of options.
\<close>

record info =
  users :: int
  hasPassword :: bool
  validPassword :: bool
  controlsOwner :: "string option"
  allowSteal :: bool

record page = ctrl_world +
  socket_id :: "string option"
  usersText :: string
  toggleHtml :: string
  toggleDisabled :: bool

definition set_toggle :: "string \<Rightarrow> bool \<Rightarrow> 'a page_scheme \<Rightarrow> 'a page_scheme" where
  "set_toggle html dis s = s\<lparr>toggleHtml := html, toggleDisabled := dis\<rparr>"

definition on_info :: "info \<Rightarrow> 'a page_scheme \<Rightarrow> 'a page_scheme" where
  "on_info msg s0 =
     (let s = s0\<lparr>usersText := displayPlural (users msg) ''person'' (Some ''people'') @ '' watching''\<rparr>
      in if \<not> hasPassword msg \<or> (hasPassword msg \<and> validPassword msg) then
           (if controlsOwner msg = socket_id s then
              set_toggle (iconHtml ''stop'' @ ''Stop controlling'') False (start s)
            else if controlsOwner msg \<noteq> None then
              (if allowSteal msg then
                 set_toggle (iconHtml ''skip_next'' @ ''Steal controls'') False (stop s)
               else set_toggle (iconHtml ''close'' @ ''Someone is controlling'') True (stop s))
            else set_toggle (iconHtml ''play_arrow'' @ ''Start controlling'') False (stop s))
         else if \<not> validPassword msg then
           set_toggle (iconHtml ''close'' @ ''Can't control'') True (stop s)
         else s)"

definition toggle_click :: "'a page_scheme \<Rightarrow> 'a page_scheme" where
  "toggle_click s = emit Emit_toggleControls s"

subsection \<open>Event delivery\<close>

text \<open>
  The page's events: an \<^verbatim>\<open>info\<close> message (socket.io delivers messages only
  while connected), a click on the toggle button (a disabled button
  dispatches no click), the socket connecting with a fresh id or
  disconnecting, and an event for the controller from the browser. The
  controller's \<^verbatim>\<open>start\<close> and \<^verbatim>\<open>stop\<close> are called by the info handler only, so
  \<open>Call_start\<close> and \<open>Call_stop\<close> are not browser events of the page.
\<close>

datatype page_event =
    Info_msg info
  | Toggle_clicked
  | Socket_connected string
  | Socket_disconnected
  | Browser ctrl_event

definition browser_event :: "ctrl_event \<Rightarrow> bool" where
  "browser_event e = (e \<noteq> Call_start \<and> e \<noteq> Call_stop)"

fun page_step :: "'a page_scheme \<Rightarrow> page_event \<Rightarrow> 'a page_scheme" where
  "page_step s (Info_msg msg) = (if socket_id s = None then s else on_info msg s)"
| "page_step s Toggle_clicked = (if toggleDisabled s then s else toggle_click s)"
| "page_step s (Socket_connected i) = s\<lparr>socket_id := Some i\<rparr>"
| "page_step s Socket_disconnected = s\<lparr>socket_id := None\<rparr>"
| "page_step s (Browser e) = (if browser_event e then ctrl_step s e else s)"

fun page_run :: "'a page_scheme \<Rightarrow> page_event list \<Rightarrow> 'a page_scheme" where
  "page_run s [] = s"
| "page_run s (e # es) = page_run (page_step s e) es"

text \<open>
  Page load: a fresh controller (line 332), no socket id yet, and the users
  line and the toggle button as the HTML document has them (not part of the
  repository's sources, hence parameters).
\<close>

definition page_init :: "bool \<Rightarrow> string \<Rightarrow> string \<Rightarrow> bool \<Rightarrow> page" where
  "page_init api txt html dis =
     ctrl_world.extend (new_controller api) (page.fields None txt html dis)"

inductive page_reachable :: "page \<Rightarrow> bool" where
  init: "page_reachable (page_init api txt html dis)"
| step: "page_reachable s \<Longrightarrow> page_reachable (page_step s e)"

subsection \<open>What the controller's operations leave alone\<close>

text \<open>The page's own fields, which no operation of the controller writes.\<close>

definition page_view :: "'a page_scheme \<Rightarrow> string option \<times> string \<times> string \<times> bool" where
  "page_view s = (socket_id s, usersText s, toggleHtml s, toggleDisabled s)"

text \<open>
  The page invariant: the controller's invariant, and a running controller
  has the toggle button enabled and labelled \<^verbatim>\<open>Stop controlling\<close>.
\<close>

definition page_inv :: "'a page_scheme \<Rightarrow> bool" where
  "page_inv s \<longleftrightarrow> ctrl_inv s \<and>
     (active s \<longrightarrow> toggleHtml s = iconHtml ''stop'' @ ''Stop controlling'' \<and> \<not> toggleDisabled s)"

section \<open>Lemmas\<close>

subsection \<open>What the controller's operations leave alone\<close>

lemma page_view_ops [simp]:
  "page_view (emit e s) = page_view s"
  "page_view (mousemove x y w h s) = page_view s"
  "page_view (mousedown b s) = page_view s"
  "page_view (mouseup b s) = page_view s"
  "page_view (wheel d s) = page_view s"
  "page_view (interval_tick s) = page_view s"
  "page_view (read_clipboard r s) = page_view s"
  "page_view (clipboard_settle i t s) = page_view s"
  "page_view (onkeydown k s) = page_view s"
  "page_view (onkeyup k s) = page_view s"
  "page_view (start s) = page_view s"
  "page_view (stop s) = page_view s"
  by (auto simp: page_view_def emit_def handler_defs Let_def
           split: option.splits clip_read.splits)

lemma page_view_ctrl_step [simp]: "page_view (ctrl_step s e) = page_view s"
  by (cases e) (simp_all add: dispatch_def funpow_preserves)

lemma page_view_fields:
  assumes "page_view s' = page_view s"
  shows "socket_id s' = socket_id s" "toggleHtml s' = toggleHtml s" "toggleDisabled s' = toggleDisabled s"
  using assms by (simp_all add: page_view_def)

lemma active_start [simp]: "active (start s)"
  by (simp add: start_def Let_def read_clipboard_def)

lemma active_stop [simp]: "\<not> active (stop s)"
  by (simp add: stop_def)

lemma active_ctrl_step:
  "browser_event e \<Longrightarrow> active (ctrl_step s e) = active s"
  by (cases e) (simp_all add: browser_event_def dispatch_def funpow_preserves handler_defs
                 emit_def Let_def split: option.splits clip_read.splits prod.splits)

lemma set_toggle_fields [simp]:
  "active (set_toggle h d s) = active s"
  "outbox (set_toggle h d s) = outbox s"
  "toggleHtml (set_toggle h d s) = h"
  "toggleDisabled (set_toggle h d s) = d"
  "usersText (set_toggle h d s) = usersText s"
  by (simp_all add: set_toggle_def)

lemma ctrl_inv_set_toggle [intro]: "ctrl_inv s \<Longrightarrow> ctrl_inv (set_toggle h d s)"
  by (erule ctrl_inv_frame) (simp add: ctrl_frame_def set_toggle_def)

lemma ctrl_inv_on_info: "ctrl_inv s \<Longrightarrow> ctrl_inv (on_info msg s)"
proof -
  assume "ctrl_inv s"
  then have "ctrl_inv (s\<lparr>usersText := u\<rparr>)" for u
    by (rule ctrl_inv_frame) (simp add: ctrl_frame_def)
  then show ?thesis
    by (auto simp: on_info_def Let_def intro: start_inv stop_inv)
qed

lemma toggleDisabled_on_info:
  "toggleDisabled (on_info msg s) \<longleftrightarrow>
     (hasPassword msg \<and> \<not> validPassword msg) \<or>
     ((\<not> hasPassword msg \<or> validPassword msg) \<and> controlsOwner msg \<noteq> socket_id s \<and>
      controlsOwner msg \<noteq> None \<and> \<not> allowSteal msg)"
  by (auto simp: on_info_def Let_def)

lemma outbox_on_info [simp]: "outbox (on_info msg s) = outbox s"
  by (simp add: on_info_def Let_def start_def stop_def read_clipboard_def)

lemma usersText_on_info:
  "usersText (on_info msg s) = displayPlural (users msg) ''person'' (Some ''people'') @ '' watching''"
  by (simp add: on_info_def Let_def start_def stop_def read_clipboard_def)

lemma ctrl_inv_page_step: "ctrl_inv s \<Longrightarrow> ctrl_inv (page_step s e)"
proof (cases e)
  case (Socket_connected i)
  assume "ctrl_inv s"
  then show ?thesis using Socket_connected by (auto elim: ctrl_inv_frame simp: ctrl_frame_def)
next
  case Socket_disconnected
  assume "ctrl_inv s"
  then show ?thesis using Socket_disconnected by (auto elim: ctrl_inv_frame simp: ctrl_frame_def)
next
  case Toggle_clicked
  assume "ctrl_inv s"
  then show ?thesis using Toggle_clicked
    by (auto elim: ctrl_inv_frame simp: toggle_click_def)
qed (auto simp: ctrl_inv_on_info ctrl_step_inv)

lemma on_info_active_label:
  "active (on_info msg s) \<Longrightarrow>
     toggleHtml (on_info msg s) = iconHtml ''stop'' @ ''Stop controlling'' \<and> \<not> toggleDisabled (on_info msg s)"
  by (auto simp: on_info_def Let_def split: if_splits)

lemma page_inv_frame:
  "page_inv s \<Longrightarrow> ctrl_inv s' \<Longrightarrow> active s' = active s \<Longrightarrow> page_view s' = page_view s \<Longrightarrow> page_inv s'"
  by (simp add: page_inv_def page_view_def)

lemma page_inv_step: "page_inv s \<Longrightarrow> page_inv (page_step s e)"
proof -
  assume inv: "page_inv s"
  then have ci: "ctrl_inv (page_step s e)"
    by (simp add: page_inv_def ctrl_inv_page_step)
  show ?thesis
  proof (cases e)
    case (Info_msg msg)
    have "page_inv (on_info msg s)"
      using inv on_info_active_label ctrl_inv_on_info unfolding page_inv_def by blast
    with inv Info_msg show ?thesis by simp
  next
    case (Browser c)
    with inv ci show ?thesis
      by (cases "browser_event c") (auto intro: page_inv_frame simp: active_ctrl_step)
  qed (use inv ci in \<open>auto simp: toggle_click_def emit_def page_inv_def\<close>)
qed

lemma page_inv_init [simp]: "page_inv (page_init api txt html dis)"
  by (simp add: page_inv_def page_init_def ctrl_world.defs page.defs new_controller_def ctrl_inv_def)

subsection \<open>Properties of the info handler\<close>

text \<open>
  C14. The controller runs after an \<^verbatim>\<open>info\<close> message exactly when this
  client may control (no password is set, or its password is valid) and the
  message names this socket as the controls' owner. In particular a client
  whose password is invalid is stopped even if it owns the controls.
\<close>

theorem info_authorizes:
  "active (on_info msg s) \<longleftrightarrow>
     (\<not> hasPassword msg \<or> validPassword msg) \<and> controlsOwner msg = socket_id s"
  by (auto simp: on_info_def Let_def)

text \<open>
  C15. In every state reachable from page load the controller's invariant
  holds, and whenever the controller runs the toggle button is enabled and
  offers to stop controlling.
\<close>

theorem page_reachable_inv:
  "page_reachable s \<Longrightarrow>
     ctrl_inv s \<and>
     (active s \<longrightarrow> toggleHtml s = iconHtml ''stop'' @ ''Stop controlling'' \<and> \<not> toggleDisabled s)"
proof -
  assume "page_reachable s"
  then have "page_inv s"
    by (induction rule: page_reachable.induct) (auto intro: page_inv_step)
  then show ?thesis by (simp add: page_inv_def)
qed

text \<open>
  C16. A click on the toggle button after an \<^verbatim>\<open>info\<close> message sends
  \<^verbatim>\<open>toggleControls\<close> unless the message disabled the button: the password is
  invalid, or another client controls and stealing is not allowed.
\<close>

theorem toggle_after_info:
  "outbox (page_step (on_info msg s) Toggle_clicked) =
     outbox s @
     (if (hasPassword msg \<and> \<not> validPassword msg) \<or>
         ((\<not> hasPassword msg \<or> validPassword msg) \<and> controlsOwner msg \<noteq> socket_id s \<and>
          controlsOwner msg \<noteq> None \<and> \<not> allowSteal msg)
      then [] else [Emit_toggleControls])"
  using toggleDisabled_on_info [of msg s]
  by (simp add: toggle_click_def emit_def)

text \<open>
  The users line reads \<^verbatim>\<open>1 person watching\<close> for one user and
  \<^verbatim>\<open>n people watching\<close> otherwise.
\<close>

theorem users_line:
  "usersText (on_info msg s) =
     js_int_toString (users msg) @ (if users msg = 1 then '' person watching'' else '' people watching'')"
  by (simp add: usersText_on_info displayPlural_def)

lemma page_reachable_run: "page_reachable s \<Longrightarrow> page_reachable (page_run s es)"
  by (induction es arbitrary: s) (auto intro: page_reachable.step)

lemmas page_eval = page_init_def ctrl_world.defs page.defs new_controller_def on_info_def Let_def
  start_def stop_def read_clipboard_def add_handlers_def set_toggle_def dispatch_def emit_def
  handler_defs browser_event_def add_listener_def

lemma disconnected_step:
  assumes "socket_id s = None" "\<forall>i. e \<noteq> Socket_connected i"
  shows "active (page_step s e) = active s \<and> socket_id (page_step s e) = None"
proof (cases e)
  case (Browser c)
  then show ?thesis
    using assms(1) page_view_fields(1) [OF page_view_ctrl_step [of s c]]
    by (simp add: active_ctrl_step)
qed (use assms in \<open>simp_all add: toggle_click_def emit_def\<close>)

text \<open>
  C17. Losing the socket does not stop the controller: no handler reacts to
  the disconnect, no \<^verbatim>\<open>info\<close> arrives until the socket connects again, and
  neither a toggle click (it only emits \<^verbatim>\<open>toggleControls\<close>) nor any
  browser event stops it; so whatever happens until the next connection, a
  running controller keeps relaying input, which socket.io buffers and
  delivers under the next socket id.
\<close>

theorem input_after_disconnect:
  assumes "active s" "\<forall>i. Socket_connected i \<notin> set es"
  shows "active (page_run (page_step s Socket_disconnected) es) \<and>
         socket_id (page_run (page_step s Socket_disconnected) es) = None"
proof -
  have "active (page_run t es) = active t \<and> socket_id (page_run t es) = None"
    if "socket_id t = None" for t
    using that assms(2)
  proof (induction es arbitrary: t)
    case Nil
    then show ?case by simp
  next
    case (Cons e es)
    from Cons.prems have "\<forall>i. e \<noteq> Socket_connected i" by auto
    from disconnected_step [OF Cons.prems(1) this] Cons.prems Cons.IH [of "page_step t e"]
    show ?case by simp
  qed
  from this [of "page_step s Socket_disconnected"] assms(1) show ?thesis by simp
qed

subsection \<open>Properties of the configuration\<close>

lemma parse_print_param:
  "query_safe kv \<Longrightarrow> parse_param m (print_param kv) = m(fst kv \<mapsto> snd kv)"
  by (cases kv; cases "snd kv")
     (auto simp: query_safe_def print_param_def parse_param_def js_obj_set_def
                 js_split_no_sep js_split_append_sep)

lemma print_param_no_amp:
  "query_safe kv \<Longrightarrow> CHR ''&'' \<notin> set (print_param kv)"
  by (cases kv; cases "snd kv") (auto simp: query_safe_def print_param_def)

lemma foldl_parse_print:
  "list_all query_safe kvs \<Longrightarrow>
     foldl parse_param m (map print_param kvs) = m ++ map_of (rev kvs)"
  by (induction kvs arbitrary: m) (auto simp: parse_print_param map_add_def split: option.splits)

text \<open>
  C30. The query parser reads back every non-empty printed query: a
  parameter maps to its last value, a bare key to \<^verbatim>\<open>true\<close>.
\<close>

theorem query_roundtrip:
  "kvs \<noteq> [] \<Longrightarrow> list_all query_safe kvs \<Longrightarrow> parse_query (print_query kvs) = map_of (rev kvs)"
  by (simp add: parse_query_def print_query_def js_split_join print_param_no_amp
      list_all_iff foldl_parse_print)

text \<open>
  C31. Outside that fragment the parser loses text: whatever the key and
  the values, a value is cut at its second \<^verbatim>\<open>=\<close> (a password containing
  \<^verbatim>\<open>=\<close> is truncated), and an empty query string yields the empty key set
  to \<^verbatim>\<open>true\<close>.
\<close>

theorem query_value_truncated:
  assumes "query_safe (k, QStr a)" "CHR ''&'' \<notin> set b"
  shows "parse_query (''?'' @ k @ ''='' @ a @ ''='' @ b) k = Some (QStr a) \<and>
         parse_query '''' = [[] \<mapsto> QTrue] \<and> parse_query ''?'' = [[] \<mapsto> QTrue]"
  using assms
  by (simp add: query_safe_def parse_query_def parse_param_def js_obj_set_def
                js_split_no_sep js_split_append_sep)

text \<open>Whatever the query string, the audio element's initial volume lies in [0, 1].\<close>

theorem volume_bounded: "0 \<le> audio_volume qp \<and> audio_volume qp \<le> 1"
  by (auto simp: audio_volume_def init_volume_def split: option.splits jsnum.splits if_splits)

text \<open>
  C32. The 0.7 default applies only when the parameter is absent: for
  every value \<open>v\<close> of \<^verbatim>\<open>?volume=v\<close>, the volume is \<^verbatim>\<open>Number(v)\<close> when
  that lies in [0, 1] and otherwise the element's full volume 1 (so
  \<^verbatim>\<open>?volume=\<close> is \<^verbatim>\<open>Number("")\<close> = 0, which mutes the stream); a bare
  \<^verbatim>\<open>volume\<close> is \<^verbatim>\<open>Number(true)\<close> = 1.
\<close>

theorem volume_fallbacks:
  assumes "CHR ''&'' \<notin> set v" "CHR ''='' \<notin> set v"
  shows "audio_volume (parse_query (''?volume='' @ v)) =
           (case js_Number v of JFin r \<Rightarrow> if 0 \<le> r \<and> r \<le> 1 then r else 1 | _ \<Rightarrow> 1) \<and>
         audio_volume (parse_query ''?volume'') = 1 \<and>
         audio_volume (parse_query ''?grayscale'') = 7 / 10"
  using assms
  by (simp add: parse_query_def parse_param_def js_obj_set_def js_split_no_sep js_split_append_sep
                audio_volume_def init_volume_def qval_Number_def split: jsnum.splits)

subsection \<open>Witnesses\<close>

lemma page_reachable_inv_witness:
  "let s = page_run (page_init False [] [] False)
             [Socket_connected ''a'',
              Info_msg \<lparr>users = 2, hasPassword = False, validPassword = False,
                        controlsOwner = Some ''a'', allowSteal = False\<rparr>]
   in page_reachable s \<and> active s \<and> ctrl_inv s \<and>
      toggleHtml s = iconHtml ''stop'' @ ''Stop controlling'' \<and> \<not> toggleDisabled s"
proof -
  define s where "s = page_run (page_init False [] [] False)
             [Socket_connected ''a'',
              Info_msg \<lparr>users = 2, hasPassword = False, validPassword = False,
                        controlsOwner = Some ''a'', allowSteal = False\<rparr>]"
  have r: "page_reachable s"
    unfolding s_def by (intro page_reachable_run page_reachable.init)
  have a: "active s"
    unfolding s_def by (simp add: page_eval)
  from page_reachable_inv [OF r] a r show ?thesis
    unfolding Let_def s_def [symmetric] by blast
qed

lemma info_authorizes_witness:
  "active (on_info \<lparr>users = 1, hasPassword = True, validPassword = True,
                     controlsOwner = Some ''a'', allowSteal = False\<rparr>
                   ((page_init False [] [] False)\<lparr>socket_id := Some ''a''\<rparr>)) \<and>
   \<not> active (on_info \<lparr>users = 1, hasPassword = True, validPassword = False,
                       controlsOwner = Some ''a'', allowSteal = False\<rparr>
                     ((page_init False [] [] False)\<lparr>socket_id := Some ''a''\<rparr>))"
  by (simp add: info_authorizes)

lemma toggle_after_info_witness:
  "outbox (page_step (on_info \<lparr>users = 3, hasPassword = False, validPassword = False,
                                controlsOwner = Some ''b'', allowSteal = False\<rparr>
                              ((page_init False [] [] False)\<lparr>socket_id := Some ''a''\<rparr>))
                     Toggle_clicked) = [] \<and>
   outbox (page_step (on_info \<lparr>users = 3, hasPassword = False, validPassword = False,
                                controlsOwner = Some ''b'', allowSteal = True\<rparr>
                              ((page_init False [] [] False)\<lparr>socket_id := Some ''a''\<rparr>))
                     Toggle_clicked) = [Emit_toggleControls]"
  by (subst toggle_after_info, subst toggle_after_info)
     (simp add: page_init_def ctrl_world.defs page.defs new_controller_def)

lemma query_roundtrip_witness:
  "[(''volume'', QStr ''0.5''), (''sepia'', QTrue)] \<noteq> [] \<and>
   list_all query_safe [(''volume'', QStr ''0.5''), (''sepia'', QTrue)] \<and>
   parse_query (print_query [(''volume'', QStr ''0.5''), (''sepia'', QTrue)]) =
     map_of (rev [(''volume'', QStr ''0.5''), (''sepia'', QTrue)])"
proof -
  have safe: "list_all query_safe [(''volume'', QStr ''0.5''), (''sepia'', QTrue)]"
    by (simp add: query_safe_def)
  show ?thesis using query_roundtrip [OF _ safe] safe by simp
qed

lemma input_after_disconnect_witness:
  "let s = page_run (page_init False [] [] False)
             [Socket_connected ''a'',
              Info_msg \<lparr>users = 1, hasPassword = False, validPassword = False,
                        controlsOwner = Some ''a'', allowSteal = False\<rparr>];
       es = [Toggle_clicked,
             Info_msg \<lparr>users = 1, hasPassword = False, validPassword = False,
                       controlsOwner = Some ''b'', allowSteal = False\<rparr>,
             Browser (Dom_mousedown 0)] in
   active s \<and> (\<forall>i. Socket_connected i \<notin> set es) \<and>
   active (page_run (page_step s Socket_disconnected) es)"
proof -
  define s where "s = page_run (page_init False [] [] False)
             [Socket_connected ''a'',
              Info_msg \<lparr>users = 1, hasPassword = False, validPassword = False,
                        controlsOwner = Some ''a'', allowSteal = False\<rparr>]"
  define es where "es = [Toggle_clicked,
             Info_msg \<lparr>users = 1, hasPassword = False, validPassword = False,
                       controlsOwner = Some ''b'', allowSteal = False\<rparr>,
             Browser (Dom_mousedown 0)]"
  have h: "active s" "\<forall>i. Socket_connected i \<notin> set es"
    by (simp_all add: s_def es_def page_eval)
  show ?thesis unfolding Let_def s_def [symmetric] es_def [symmetric]
    using input_after_disconnect [OF h] h by simp
qed

lemma query_value_truncated_witness:
  "query_safe (''password'', QStr ''ab'') \<and> CHR ''&'' \<notin> set ''cd'' \<and>
   parse_query ''?password=ab=cd'' ''password'' = Some (QStr ''ab'')"
proof -
  have h: "query_safe (''password'', QStr ''ab'')" "CHR ''&'' \<notin> set ''cd''"
    by (simp_all add: query_safe_def)
  from query_value_truncated [OF h] h show ?thesis by simp
qed

lemma volume_fallbacks_witness:
  "CHR ''&'' \<notin> set ''loud'' \<and> CHR ''='' \<notin> set ''loud'' \<and>
   audio_volume (parse_query ''?volume=loud'') = 1 \<and>
   audio_volume (parse_query ''?volume='') = 0"
proof -
  have n: "js_Number ''loud'' = JNaN" "js_Number '''' = JFin 0" by code_simp+
  from volume_fallbacks [of "''loud''"] volume_fallbacks [of "''''"] n show ?thesis by simp
qed

end
