(* ===== verification/Media.thy ===== *)
theory Media
  imports Page
begin

text \<open>
  The media elements of the page body of \<^verbatim>\<open>src/app/html/index.js\<close>: the
  volume slider's \<^verbatim>\<open>input\<close> listener (lines 300--302), the initial volume
  (lines 304--311), the \<^verbatim>\<open>playing\<close> listener that hides the loading
  indicator (lines 313--315) and the 500 ms watchdog that calls \<^verbatim>\<open>play()\<close>
  on paused elements (lines 317--328). The browser side follows the HTML
  standard: assigning \<^verbatim>\<open>volume\<close> throws a \<^verbatim>\<open>TypeError\<close> for a non-finite
  number and an \<^verbatim>\<open>IndexSizeError\<close> outside [0, 1], and an exception that
  leaves a listener is reported and ends the listener; \<^verbatim>\<open>play()\<close> does not
  throw but returns a promise, which later settles; a rejection is handled
  only if a handler was attached to that promise. Each pending
  \<^verbatim>\<open>play()\<close> promise is recorded with whether it has a rejection handler.
  A settled promise and every other browser action are events of
  \<open>media_step\<close>.
\<close>

datatype dom_error = TypeError | IndexSizeError

datatype media_kind = Video_el | Audio_el

record media_el =
  paused :: bool
  pending_plays :: "bool list"

record media =
  video :: media_el
  audio :: media_el
  volume :: rat
  loading :: "string option"
  unhandled_rejections :: nat
  reported :: "dom_error list"

definition el_of :: "media_kind \<Rightarrow> media \<Rightarrow> media_el" where
  "el_of k m = (case k of Video_el \<Rightarrow> video m | Audio_el \<Rightarrow> audio m)"

definition upd_el :: "media_kind \<Rightarrow> (media_el \<Rightarrow> media_el) \<Rightarrow> media \<Rightarrow> media" where
  "upd_el k f m = (case k of Video_el \<Rightarrow> m\<lparr>video := f (video m)\<rparr> | Audio_el \<Rightarrow> m\<lparr>audio := f (audio m)\<rparr>)"

text \<open>The \<^verbatim>\<open>volume\<close> setter of an HTML media element.\<close>

definition set_volume :: "jsnum \<Rightarrow> media \<Rightarrow> dom_error + media" where
  "set_volume v m =
     (case v of
        JFin r \<Rightarrow> if 0 \<le> r \<and> r \<le> 1 then Inr (m\<lparr>volume := r\<rparr>) else Inl IndexSizeError
      | _ \<Rightarrow> Inl TypeError)"

text \<open>A listener's body: an exception it raises is reported and its effects so far stay.\<close>

definition run_listener :: "dom_error + media \<Rightarrow> media \<Rightarrow> media" where
  "run_listener r m = (case r of Inr m' \<Rightarrow> m' | Inl e \<Rightarrow> m\<lparr>reported := reported m @ [e]\<rparr>)"

text \<open>Lines 300--302, for the value the range input reports.\<close>

definition on_slider_input :: "string \<Rightarrow> media \<Rightarrow> media" where
  "on_slider_input value m = run_listener (set_volume (js_Number value) m) m"

text \<open>Lines 304--311 on freshly loaded elements (paused, full volume, indicator as styled).\<close>

definition media_init :: "(string \<rightharpoonup> qval) \<Rightarrow> media" where
  "media_init qp =
     \<lparr>video = \<lparr>paused = True, pending_plays = []\<rparr>, audio = \<lparr>paused = True, pending_plays = []\<rparr>,
      volume = audio_volume qp, loading = None, unhandled_rejections = 0, reported = []\<rparr>"

text \<open>Lines 313--315.\<close>

definition on_playing :: "media \<Rightarrow> media" where
  "on_playing m = m\<lparr>loading := Some (if paused (video m) then ''initial'' else ''none'')\<rparr>"

text \<open>
  Lines 317--328: \<^verbatim>\<open>play()\<close> on each paused element. The call returns a
  promise without throwing, so the \<^verbatim>\<open>catch\<close> blocks never run; no
  handler is attached to the promise (\<open>False\<close>), which is left pending.
\<close>

definition try_play :: "media_el \<Rightarrow> media_el" where
  "try_play el = (if paused el then el\<lparr>pending_plays := pending_plays el @ [False]\<rparr> else el)"

definition watchdog_tick :: "media \<Rightarrow> media" where
  "watchdog_tick m = upd_el Audio_el try_play (upd_el Video_el try_play m)"

text \<open>
  The oldest pending \<^verbatim>\<open>play()\<close> promise of an element settles: fulfilled,
  the element plays; rejected (the autoplay policy, no data), it stays
  paused, and the rejection is unhandled unless a handler was attached.
\<close>

definition play_settled :: "media_kind \<Rightarrow> bool \<Rightarrow> media \<Rightarrow> media" where
  "play_settled k ok m =
     (case pending_plays (el_of k m) of
        [] \<Rightarrow> m
      | handled # rest \<Rightarrow>
          (let m1 = upd_el k (\<lambda>el. el\<lparr>pending_plays := rest\<rparr>) m in
           if ok then upd_el k (\<lambda>el. el\<lparr>paused := False\<rparr>) m1
           else if handled then m1
           else m1\<lparr>unhandled_rejections := Suc (unhandled_rejections m)\<rparr>))"

datatype media_event =
    Slider_input string
  | Watchdog_fires
  | Play_settles media_kind bool
  | Playing_fires
  | Media_pauses media_kind

fun media_step :: "media \<Rightarrow> media_event \<Rightarrow> media" where
  "media_step m (Slider_input v) = on_slider_input v m"
| "media_step m Watchdog_fires = watchdog_tick m"
| "media_step m (Play_settles k ok) = play_settled k ok m"
| "media_step m Playing_fires = on_playing m"
| "media_step m (Media_pauses k) = upd_el k (\<lambda>el. el\<lparr>paused := True\<rparr>) m"

fun media_run :: "media \<Rightarrow> media_event list \<Rightarrow> media" where
  "media_run m [] = m"
| "media_run m (e # es) = media_run (media_step m e) es"

inductive media_reachable :: "media \<Rightarrow> bool" where
  init: "media_reachable (media_init qp)"
| step: "media_reachable m \<Longrightarrow> media_reachable (media_step m e)"

subsection \<open>Lemmas\<close>

lemma el_of_upd [simp]:
  "el_of k (upd_el k f m) = f (el_of k m)"
  "k \<noteq> k' \<Longrightarrow> el_of k' (upd_el k f m) = el_of k' m"
  by (cases k; cases k'; simp add: el_of_def upd_el_def)+

lemma upd_el_fields [simp]:
  "volume (upd_el k f m) = volume m"
  "loading (upd_el k f m) = loading m"
  "unhandled_rejections (upd_el k f m) = unhandled_rejections m"
  "reported (upd_el k f m) = reported m"
  by (cases k; simp add: upd_el_def)+

lemma upd_el_compose [simp]: "upd_el k f (upd_el k g m) = upd_el k (f \<circ> g) m"
  by (cases k) (simp_all add: upd_el_def)

lemma media_fields [simp]:
  "volume (watchdog_tick m) = volume m"
  "volume (play_settled k ok m) = volume m"
  "volume (on_playing m) = volume m"
  "loading (watchdog_tick m) = loading m"
  "loading (play_settled k ok m) = loading m"
  "loading (on_slider_input v m) = loading m"
  by (simp_all add: watchdog_tick_def play_settled_def on_playing_def on_slider_input_def
                    run_listener_def set_volume_def Let_def split: list.splits jsnum.splits sum.splits)

lemma slider_effect:
  "on_slider_input v m =
     (case js_Number v of
        JFin r \<Rightarrow> if 0 \<le> r \<and> r \<le> 1 then m\<lparr>volume := r\<rparr>
                 else m\<lparr>reported := reported m @ [IndexSizeError]\<rparr>
      | _ \<Rightarrow> m\<lparr>reported := reported m @ [TypeError]\<rparr>)"
  by (simp add: on_slider_input_def run_listener_def set_volume_def split: jsnum.splits)

lemma media_volume_step:
  "0 \<le> volume m \<and> volume m \<le> 1 \<Longrightarrow> 0 \<le> volume (media_step m e) \<and> volume (media_step m e) \<le> 1"
  by (cases e) (auto simp: slider_effect split: jsnum.splits)

lemma media_run_append [simp]: "media_run m (xs @ ys) = media_run (media_run m xs) ys"
  by (induction xs arbitrary: m) auto

lemma media_reachable_run: "media_reachable m \<Longrightarrow> media_reachable (media_run m es)"
  by (induction es arbitrary: m) (auto intro: media_reachable.step)

text \<open>No \<^verbatim>\<open>play()\<close> promise the page creates has a rejection handler.\<close>

definition no_handlers :: "media \<Rightarrow> bool" where
  "no_handlers m = (list_all Not (pending_plays (video m)) \<and> list_all Not (pending_plays (audio m)))"

lemma no_handlers_step:
  assumes "no_handlers m"
  shows "no_handlers (media_step m e)"
proof (cases e)
  case (Play_settles k ok)
  with assms show ?thesis
    by (cases k) (auto simp: no_handlers_def play_settled_def el_of_def upd_el_def Let_def
                       split: list.splits)
next
  case (Media_pauses k)
  with assms show ?thesis by (cases k) (simp_all add: no_handlers_def upd_el_def)
qed (use assms in \<open>simp_all add: slider_effect watchdog_tick_def try_play_def on_playing_def
                    no_handlers_def upd_el_def split: jsnum.splits\<close>)

lemma media_no_handlers: "media_reachable m \<Longrightarrow> no_handlers m"
proof (induction rule: media_reachable.induct)
  case (init qp)
  show ?case by (simp add: media_init_def no_handlers_def)
next
  case (step m e)
  from step.IH show ?case by (rule no_handlers_step)
qed

lemma blocked_round:
  assumes "paused (video m)" "\<not> paused (audio m)" "list_all Not (pending_plays (video m))"
  shows "paused (video (play_settled Video_el False (watchdog_tick m))) \<and>
         \<not> paused (audio (play_settled Video_el False (watchdog_tick m))) \<and>
         list_all Not (pending_plays (video (play_settled Video_el False (watchdog_tick m)))) \<and>
         unhandled_rejections (play_settled Video_el False (watchdog_tick m)) = Suc (unhandled_rejections m)"
  using assms
  by (cases "pending_plays (video m)")
     (simp_all add: watchdog_tick_def play_settled_def try_play_def el_of_def upd_el_def Let_def)

lemma loading_step: "e \<noteq> Playing_fires \<Longrightarrow> loading (media_step m e) = loading m"
  by (cases e) simp_all

text \<open>
  C33. The volume slider: in every reachable state the audio element's
  volume lies in [0, 1], and a slider input sets the volume to the number it
  reports when that lies in [0, 1]; any other input makes the setter throw
  (\<^verbatim>\<open>TypeError\<close> for a non-number, \<^verbatim>\<open>IndexSizeError\<close> out of range), the
  exception is reported, and nothing else changes.
\<close>

theorem media_volume_inv:
  assumes "media_reachable m"
  shows "0 \<le> volume m \<and> volume m \<le> 1 \<and>
         media_step m (Slider_input v) =
           (case js_Number v of
              JFin r \<Rightarrow> if 0 \<le> r \<and> r \<le> 1 then m\<lparr>volume := r\<rparr>
                       else m\<lparr>reported := reported m @ [IndexSizeError]\<rparr>
            | _ \<Rightarrow> m\<lparr>reported := reported m @ [TypeError]\<rparr>)"
proof -
  from assms have "0 \<le> volume m \<and> volume m \<le> 1"
  proof (induction rule: media_reachable.induct)
    case (init qp)
    show ?case using volume_bounded [of qp] by (simp add: media_init_def)
  next
    case (step m e)
    from step.IH show ?case by (rule media_volume_step)
  qed
  then show ?thesis
    by (simp add: on_slider_input_def run_listener_def set_volume_def split: jsnum.splits)
qed

text \<open>
  C34. The watchdog's \<^verbatim>\<open>try\<close>/\<^verbatim>\<open>catch\<close> does not catch a failed
  \<^verbatim>\<open>play()\<close>: no handler is attached to the promise \<^verbatim>\<open>play()\<close> returns,
  so while the browser keeps refusing playback (the autoplay policy), every
  500 ms round adds one unhandled promise rejection and leaves the video
  paused.
\<close>

theorem play_rejections_unhandled:
  assumes "media_reachable m" "paused (video m)" "\<not> paused (audio m)"
  shows "unhandled_rejections (media_run m (concat (replicate n [Watchdog_fires, Play_settles Video_el False]))) =
           unhandled_rejections m + n \<and>
         paused (video (media_run m (concat (replicate n [Watchdog_fires, Play_settles Video_el False]))))"
proof -
  from media_no_handlers [OF assms(1)] have "list_all Not (pending_plays (video m))"
    by (simp add: no_handlers_def)
  with assms(2,3) show ?thesis
  proof (induction n arbitrary: m)
    case 0
    then show ?case by simp
  next
    case (Suc n)
    from blocked_round [OF Suc.prems] Suc.IH [of "play_settled Video_el False (watchdog_tick m)"]
    show ?case by simp
  qed
qed

text \<open>
  C35. The loading indicator is set once, by the \<^verbatim>\<open>playing\<close> event, and
  nothing else touches it: whatever happens afterwards (the video pausing,
  the watchdog, refused or granted \<^verbatim>\<open>play()\<close> calls, slider input), until
  the next \<^verbatim>\<open>playing\<close> event it stays as that event set it, so a stream
  that stops playing is never shown as loading again.
\<close>

theorem loading_not_restored:
  assumes "Playing_fires \<notin> set es"
  shows "loading (media_run (on_playing m) es) = Some (if paused (video m) then ''initial'' else ''none'')"
proof -
  have "loading (media_run m' es) = loading m'" for m'
    using assms by (induction es arbitrary: m') (auto simp: loading_step)
  then show ?thesis by (simp add: on_playing_def)
qed

subsection \<open>Witnesses\<close>

lemma media_volume_inv_witness:
  "media_reachable (media_run (media_init Map.empty) [Slider_input ''0.3'']) \<and>
   volume (media_run (media_init Map.empty) [Slider_input ''0.3'']) = 3 / 10 \<and>
   reported (media_step (media_run (media_init Map.empty) [Slider_input ''0.3'']) (Slider_input ''2'')) =
     [IndexSizeError]"
proof -
  have r: "media_reachable (media_run (media_init Map.empty) [Slider_input ''0.3''])"
    by (intro media_reachable_run media_reachable.init)
  have n: "js_Number ''0.3'' = JFin (3 / 10)" "js_Number ''2'' = JFin 2" by code_simp+
  from media_volume_inv [OF r, of "''2''"] r n show ?thesis
    by (simp add: slider_effect media_init_def)
qed

lemma play_rejections_unhandled_witness:
  "let m = media_run (media_init Map.empty) [Watchdog_fires, Play_settles Audio_el True] in
   media_reachable m \<and> paused (video m) \<and> \<not> paused (audio m) \<and>
   unhandled_rejections (media_run m (concat (replicate 3 [Watchdog_fires, Play_settles Video_el False]))) = 3"
proof -
  define m where "m = media_run (media_init Map.empty) [Watchdog_fires, Play_settles Audio_el True]"
  have r: "media_reachable m" unfolding m_def by (intro media_reachable_run media_reachable.init)
  have h: "paused (video m)" "\<not> paused (audio m)" "unhandled_rejections m = 0"
    by (simp_all add: m_def media_init_def watchdog_tick_def try_play_def play_settled_def
                      el_of_def upd_el_def Let_def)
  show ?thesis unfolding Let_def m_def [symmetric]
    using play_rejections_unhandled [OF r h(1,2), of 3] r h by simp
qed

lemma loading_not_restored_witness:
  "let m = media_run (media_init Map.empty) [Watchdog_fires, Play_settles Video_el True] in
   Playing_fires \<notin> set [Media_pauses Video_el, Watchdog_fires, Play_settles Video_el False] \<and>
   loading (media_run (on_playing m) [Media_pauses Video_el, Watchdog_fires, Play_settles Video_el False]) =
     Some ''none''"
proof -
  define m where "m = media_run (media_init Map.empty) [Watchdog_fires, Play_settles Video_el True]"
  have "\<not> paused (video m)"
    by (simp add: m_def media_init_def watchdog_tick_def try_play_def play_settled_def
                  el_of_def upd_el_def Let_def)
  then show ?thesis unfolding Let_def m_def [symmetric]
    using loading_not_restored [of "[Media_pauses Video_el, Watchdog_fires, Play_settles Video_el False]" m]
    by simp
qed

end
