(* ===== verification/DynamicLights.thy ===== *)
theory DynamicLights
  imports Page "HOL-Library.Word"
begin

text \<open>
  The dynamic-lights sampler of \<^verbatim>\<open>src/app/html/index.js\<close> (lines 421--482),
  enabled by the \<^verbatim>\<open>dynamicLights\<close> query flag: every 1/30 s the video frame
  is drawn into a 30 by 30 canvas, the canvas is cut into a 3 by 3 grid of 10
  by 10 blocks, the eight border blocks are averaged channel by channel
  (\<open>getAverageColor\<close>, a 100-round \<^verbatim>\<open>for\<close> loop), and the 24 averages are
  sent to the Qt host as one comma-separated string (\<open>getColors\<close>). The
  canvas is a function from pixel coordinates to RGBA pixels whose channels
  are bytes (\<open>8 word\<close>, as in the \<^verbatim>\<open>Uint8ClampedArray\<close> that
  \<^verbatim>\<open>getImageData\<close> returns); the sums are JavaScript numbers, exact at these
  sizes, hence \<open>nat\<close>. Drawing the frame (\<^verbatim>\<open>drawImage\<close>, the browser's
  scaling) is not modelled: the canvas after drawing is the input.
\<close>

type_synonym pixel = "8 word \<times> 8 word \<times> 8 word \<times> 8 word"
type_synonym canvas = "nat \<Rightarrow> nat \<Rightarrow> pixel"

definition rgba :: "pixel \<Rightarrow> 8 word list" where
  "rgba p = (case p of (r, g, b, a) \<Rightarrow> [r, g, b, a])"

text \<open>\<^verbatim>\<open>ctx.getImageData(sx, sy, sw, sh).data\<close>: the region's pixels row by row, four bytes each.\<close>

definition getImageData :: "canvas \<Rightarrow> nat \<Rightarrow> nat \<Rightarrow> nat \<Rightarrow> nat \<Rightarrow> 8 word list" where
  "getImageData cv sx sy sw sh =
     concat (map (\<lambda>row. concat (map (\<lambda>col. rgba (cv (sx + col) (sy + row))) [0..<sw])) [0..<sh])"

subsection \<open>The sampler\<close>

text \<open>One round of the loop of lines 437--442: add pixel \<open>i\<close>'s red, green and blue.\<close>

definition avg_add :: "8 word list \<Rightarrow> nat \<Rightarrow> nat list \<Rightarrow> nat list" where
  "avg_add colors i average =
     (let index = i * 4 in
      average[0 := average ! 0 + unat (colors ! index),
              1 := average ! 1 + unat (colors ! (index + 1)),
              2 := average ! 2 + unat (colors ! (index + 2))])"

text \<open>Lines 433--449; \<^verbatim>\<open>Math.floor(a / 100)\<close> of a non-negative integer is \<open>a div 100\<close>.\<close>

definition getAverageColor :: "canvas \<Rightarrow> nat \<Rightarrow> nat \<Rightarrow> nat list" where
  "getAverageColor cv x y =
     (let colors = getImageData cv (x * 10) (y * 10) 10 10;
          (_, average) = while (\<lambda>(i, _). i < 100)
                               (\<lambda>(i, average). (Suc i, avg_add colors i average)) (0, [0, 0, 0])
      in [average ! 0 div 100, average ! 1 div 100, average ! 2 div 100])"

text \<open>The eight border blocks in the order of lines 452--463: top row, the two middle ones, bottom row.\<close>

definition light_blocks :: "(nat \<times> nat) list" where
  "light_blocks = [(0, 0), (1, 0), (2, 0), (0, 1), (2, 1), (0, 2), (1, 2), (2, 2)]"

text \<open>Lines 451--469: the reduce that concatenates the triples, then \<^verbatim>\<open>join(",")\<close>.\<close>

definition getColors :: "canvas \<Rightarrow> string" where
  "getColors cv =
     js_join CHR '','' (map (\<lambda>v. js_int_toString (int v))
       (foldl (\<lambda>colors c. colors @ [c ! 0, c ! 1, c ! 2]) []
          (map (\<lambda>(x, y). getAverageColor cv x y) light_blocks)))"

text \<open>Lines 423, 471--472 and 474--481: the feature flag, the drawing width
  (doubled by the \<^verbatim>\<open>3D\<close> flag), and the interval callback, which sends the
  colours only inside the Qt host.\<close>

definition lights_enabled :: "(string \<rightharpoonup> qval) \<Rightarrow> bool" where
  "lights_enabled qp = qtruthy (qp ''dynamicLights'')"

definition renderWidth :: "(string \<rightharpoonup> qval) \<Rightarrow> nat" where
  "renderWidth qp = (if qtruthy (qp ''3D'') then 30 * 2 else 30)"

definition lights_tick :: "bool \<Rightarrow> canvas \<Rightarrow> string option" where
  "lights_tick qt cv = (let color = getColors cv in if qt then Some color else None)"

subsection \<open>The reference computation\<close>

text \<open>The sum of one channel over the 100 pixels of block (x, y), row by row.\<close>

definition block_sum :: "canvas \<Rightarrow> nat \<Rightarrow> nat \<Rightarrow> nat \<Rightarrow> nat" where
  "block_sum cv x y ch = (\<Sum>i<100. unat (rgba (cv (x * 10 + i mod 10) (y * 10 + i div 10)) ! ch))"

definition lights_values :: "canvas \<Rightarrow> nat list" where
  "lights_values cv = concat (map (\<lambda>(x, y). getAverageColor cv x y) light_blocks)"

subsection \<open>Image data\<close>

lemma length_rgba [simp]: "length (rgba p) = 4"
  by (simp add: rgba_def split: prod.splits)

lemma concat_map_upt_rows:
  assumes "0 < w"
  shows "concat (map (\<lambda>row. concat (map (\<lambda>col. g col row) [0..<w])) [0..<h]) =
           concat (map (\<lambda>i. g (i mod w) (i div w)) [0..<w * h])"
proof (induction h)
  case 0
  then show ?case by simp
next
  case (Suc h)
  have shift: "[w * h..<w * Suc h] = map (\<lambda>c. c + w * h) [0..<w]"
    by (simp add: map_add_upt add.commute)
  have row: "map (\<lambda>i. g (i mod w) (i div w)) [w * h..<w * Suc h] = map (\<lambda>c. g c h) [0..<w]"
    unfolding shift map_map by (rule map_cong) (simp_all add: assms)
  have "[0..<w * Suc h] = [0..<w * h] @ [w * h..<w * Suc h]"
    using upt_add_eq_append [of 0 "w * h" w] by (simp add: add.commute)
  with Suc row show ?case by simp
qed

lemma getImageData_flat:
  "0 < sw \<Longrightarrow> getImageData cv sx sy sw sh =
     concat (map (\<lambda>i. rgba (cv (sx + i mod sw) (sy + i div sw))) [0..<sw * sh])"
  unfolding getImageData_def by (rule concat_map_upt_rows)

lemma nth_concat_map_4:
  assumes "\<And>x. length (f x) = 4" "i < length xs" "c < 4"
  shows "concat (map f xs) ! (i * 4 + c) = f (xs ! i) ! c"
  using assms(2)
proof (induction xs arbitrary: i)
  case Nil
  then show ?case by simp
next
  case (Cons x xs)
  show ?case
  proof (cases i)
    case 0
    then show ?thesis using assms(1,3) by (simp add: nth_append)
  next
    case (Suc j)
    have "concat (map f (x # xs)) ! (i * 4 + c) = concat (map f xs) ! (j * 4 + c)"
      using Suc assms(1) by (simp add: nth_append)
    also have "\<dots> = f (xs ! j) ! c" using Cons.IH Cons.prems Suc by simp
    finally show ?thesis using Suc by simp
  qed
qed

lemma getImageData_nth:
  "i < 100 \<Longrightarrow> c < 4 \<Longrightarrow>
     getImageData cv (x * 10) (y * 10) 10 10 ! (i * 4 + c) =
       rgba (cv (x * 10 + i mod 10) (y * 10 + i div 10)) ! c"
  by (simp add: getImageData_flat nth_concat_map_4)

lemma foldl_avg_add:
  "foldl (\<lambda>a j. avg_add colors j a) [0, 0, 0] [0..<n] =
     [\<Sum>j<n. unat (colors ! (j * 4)), \<Sum>j<n. unat (colors ! (j * 4 + 1)),
      \<Sum>j<n. unat (colors ! (j * 4 + 2))]"
  by (induction n) (simp_all add: avg_add_def Let_def)

subsection \<open>The loop and its reference\<close>

lemma avg_fold_block:
  "foldl (\<lambda>a j. avg_add (getImageData cv (x * 10) (y * 10) 10 10) j a) [0, 0, 0] [0..<100] =
     [block_sum cv x y 0, block_sum cv x y 1, block_sum cv x y 2]"
proof -
  have "(\<Sum>j<100. unat (getImageData cv (x * 10) (y * 10) 10 10 ! (j * 4 + c))) = block_sum cv x y c"
    if "c < 4" for c
    unfolding block_sum_def using that by (intro sum.cong) (simp_all add: getImageData_nth)
  from this [of 0] this [of 1] this [of 2] show ?thesis by (simp add: foldl_avg_add)
qed

lemma getAverageColor_eq [simp]:
  "getAverageColor cv x y = [block_sum cv x y 0 div 100, block_sum cv x y 1 div 100, block_sum cv x y 2 div 100]"
  using while_count [of 0 100 "avg_add (getImageData cv (x * 10) (y * 10) 10 10)" "[0, 0, 0]"]
  by (simp add: getAverageColor_def avg_fold_block)

lemma sum_rows: "(\<Sum>i<m * n. f (i mod m) (i div m)) = (\<Sum>dy<n. \<Sum>dx<m. f dx dy :: nat)"
  for m n :: nat
proof (induction n)
  case 0
  then show ?case by simp
next
  case (Suc n)
  have split: "(\<Sum>i<m * Suc n. f (i mod m) (i div m)) =
      (\<Sum>i<m * n. f (i mod m) (i div m)) + (\<Sum>i = m * n..<m * n + m. f (i mod m) (i div m))"
  proof -
    have e: "m * Suc n = m * n + m" by simp
    show ?thesis unfolding e by (simp add: lessThan_atLeast0 sum.atLeastLessThan_concat)
  qed
  have "(\<Sum>i = m * n..<m * n + m. f (i mod m) (i div m)) =
      (\<Sum>dx = 0..<m. f ((dx + m * n) mod m) ((dx + m * n) div m))"
    using sum.shift_bounds_nat_ivl [of "\<lambda>i. f (i mod m) (i div m)" 0 "m * n" m]
    by (simp add: add.commute)
  also have "\<dots> = (\<Sum>dx<m. f dx n)"
    by (intro sum.cong) (auto simp: atLeast0LessThan)
  finally show ?case using split Suc.IH by simp
qed

lemma block_sum_rows:
  "block_sum cv x y ch = (\<Sum>dy<10. \<Sum>dx<10. unat (rgba (cv (x * 10 + dx) (y * 10 + dy)) ! ch))"
  using sum_rows [of "\<lambda>dx dy. unat (rgba (cv (x * 10 + dx) (y * 10 + dy)) ! ch)" 10 10]
  by (simp add: block_sum_def)

text \<open>
  C37. \<^verbatim>\<open>getAverageColor(x, y)\<close> computes, for red, green and blue, the
  floor of the mean of that channel over the 100 pixels of the 10 \<open>\<times>\<close> 10
  block whose top-left corner is (10x, 10y): its loop reads the image data
  with the RGBA stride, visits each pixel of the block once and ends after
  100 rounds.
\<close>

theorem getAverageColor_block_average:
  "getAverageColor cv x y =
     map (\<lambda>ch. (\<Sum>dy<10. \<Sum>dx<10. unat (rgba (cv (x * 10 + dx) (y * 10 + dy)) ! ch)) div 100) [0, 1, 2]"
  by (simp add: block_sum_rows)

lemma block_sum_le: "block_sum cv x y ch \<le> 100 * 255"
proof -
  have byte: "unat w \<le> (255::nat)" for w :: "8 word"
  proof -
    have "unat w < (256::nat)" using unsigned_less [of w] by simp
    then show ?thesis by simp
  qed
  have "block_sum cv x y ch \<le> of_nat (card {..<100::nat}) * 255"
    unfolding block_sum_def by (rule sum_bounded_above) (rule byte)
  then show ?thesis by simp
qed

lemma block_average_le: "block_sum cv x y ch div 100 \<le> 255"
proof -
  have "block_sum cv x y ch div 100 \<le> (100 * 255) div 100"
    by (rule div_le_mono [OF block_sum_le])
  then show ?thesis by simp
qed

lemma triple_eta:
  assumes "length c = 3"
  shows "[c ! 0, c ! Suc 0, c ! 2] = c"
proof -
  obtain a b d where "c = [a, b, d]"
    using assms by (auto simp: numeral_3_eq_3 length_Suc_conv)
  then show ?thesis by simp
qed

lemma foldl_triples:
  "\<forall>c \<in> set cs. length c = 3 \<Longrightarrow>
     foldl (\<lambda>colors c. colors @ [c ! 0, c ! 1, c ! 2]) acc cs = acc @ concat cs"
  by (induction cs arbitrary: acc) (simp_all add: triple_eta)

lemma digit_char_not_comma: "(n::nat) < 10 \<Longrightarrow> char_of (48 + n) \<noteq> CHR '',''"
proof
  assume "n < 10" "char_of (48 + n) = CHR '',''"
  then have "(of_char (char_of (48 + n)) :: nat) = of_char CHR '',''" by simp
  with \<open>n < 10\<close> show False by (simp add: of_char_of)
qed

lemma nat_digits_no_comma: "CHR '','' \<notin> set (nat_digits n)"
proof (induction n rule: nat_digits.induct)
  case (1 n)
  then show ?case
    using digit_char_not_comma [of "n mod 10"] digit_char_not_comma [of n]
    by (subst nat_digits.simps) auto
qed

lemma getColors_values:
  "getColors cv = js_join CHR '','' (map (\<lambda>v. js_int_toString (int v)) (lights_values cv))"
  unfolding getColors_def lights_values_def
  by (subst foldl_triples) auto

lemma length_lights_values: "length (lights_values cv) = 24"
  by (simp add: lights_values_def light_blocks_def)

text \<open>
  C38. What the sampler sends is 24 comma-separated decimal numbers, each a
  byte (an average of bytes): splitting the string at commas gives back the
  decimal printing of the 24 channel averages of the eight border blocks.
\<close>

theorem lights_format:
  "js_split CHR '','' (getColors cv) = map (\<lambda>v. js_int_toString (int v)) (lights_values cv) \<and>
   length (lights_values cv) = 24 \<and> list_all (\<lambda>v. v \<le> 255) (lights_values cv)"
proof -
  have pieces: "\<forall>w \<in> set (map (\<lambda>v. js_int_toString (int v)) (lights_values cv)). CHR '','' \<notin> set w"
    by (simp add: js_int_toString_def nat_digits_no_comma)
  have ne: "map (\<lambda>v. js_int_toString (int v)) (lights_values cv) \<noteq> []"
    using length_lights_values [of cv] by auto
  have "list_all (\<lambda>v. v \<le> 255) (lights_values cv)"
    by (auto simp: lights_values_def list_all_iff block_average_le)
  with js_split_join [OF ne pieces] show ?thesis
    by (simp add: getColors_values length_lights_values)
qed

end
