(* ===== verification/Spec2Isabelle.thy ===== *)
theory Spec2Isabelle
  imports JsBuiltins InputController RelaySpec Janus Page Media DynamicLights
begin

text \<open>
  \<^bold>\<open>A verification library for the shared-desktop viewer page.\<close>

  The program is one browser script, \<^verbatim>\<open>src/app/html/index.js\<close>. It has three
  parts that share no state but the page:
  \<^item> the \<^emph>\<open>input relay controller\<close>, class \<^verbatim>\<open>StreamInputController\<close>
    (lines 3--110): while this client owns the controls it turns pointer, wheel
    and keyboard events on the stream element into \<^verbatim>\<open>socket.emit\<close> commands,
    coalescing pointer motion through a 30 Hz interval and turning
    Control-\<^verbatim>\<open>v\<close> into a clipboard paste;
  \<^item> the \<^emph>\<open>session lifecycle manager\<close>, \<^verbatim>\<open>startJanus\<close> (lines 112--252) and
    the \<^verbatim>\<open>check\<close>/\<^verbatim>\<open>preStartJanus\<close> retry loop (lines 381--408): per
    sub-stream (video, audio) it attaches to the Janus streaming plugin, lists
    the streams, matches one by name, negotiates a receive-only session and
    restarts after an ICE disconnect;
  \<^item> the \<^emph>\<open>page body\<close> (lines 254--483): it parses the query string, sets
    the presentation and the volume, keeps the media elements playing (a
    500 ms watchdog), and on each \<^verbatim>\<open>info\<close> message from the server starts
    or stops the controller and relabels the toggle button; the lifecycle
    starts at once inside the Qt host and otherwise after a click; with the
    \<^verbatim>\<open>dynamicLights\<close> flag a 30 Hz sampler sends the colours of the frame's
    border to the Qt host.
  The controller and the page write the socket; the lifecycle talks to the
  Janus server only; the sampler talks to the Qt host only.

  \<^bold>\<open>Theories.\<close>
  \<^item> \<open>Prelude\<close>: the types the script passes around (keysyms, buttons, timer
    handles, JavaScript numbers with their infinities and NaN as \<open>jsnum\<close>,
    division \<open>js_div\<close>), the payloads of the outbound socket channel
    (\<open>emission\<close>, the interface the controller and the page emit on), DOM
    listener lists with the DOM's no-duplicate registration
    (\<open>add_listener\<close>), and shared lemmas on lists and maps.
  \<^item> \<open>JsBuiltins\<close>: the JavaScript builtins the code calls (\<^verbatim>\<open>includes\<close>,
    \<^verbatim>\<open>indexOf\<close>, \<^verbatim>\<open>replace\<close>, \<^verbatim>\<open>toLowerCase\<close>, \<^verbatim>\<open>split\<close>, \<^verbatim>\<open>join\<close>,
    \<^verbatim>\<open>Number(string)\<close>, number printing) as executable functions tied to
    declarative specifications: substring search is \<^const>\<open>sublist\<close>,
    \<^verbatim>\<open>replace\<close> rewrites the leftmost occurrence, \<^verbatim>\<open>join\<close> and \<^verbatim>\<open>split\<close>
    invert each other.
  \<^item> \<open>InputController\<close>: the controller. Its fields are the record
    \<open>controller\<close> (\<^verbatim>\<open>intervals\<close>, \<^verbatim>\<open>keysDown\<close>, \<^verbatim>\<open>active\<close>,
    \<^verbatim>\<open>mouseMovePacket\<close>, whether the Guacamole keyboard callbacks are
    installed); the browser state it touches extends it to \<open>ctrl_world\<close>
    (listener registrations, running intervals, pending \<^verbatim>\<open>readText\<close>
    promises, the socket's outbound log). Every handler and method is one
    definition with the source's name (\<open>mousemove\<close>, \<open>mousedown\<close>,
    \<open>mouseup\<close>, \<open>wheel\<close>, \<open>interval_tick\<close>, \<open>onkeydown\<close>, \<open>onkeyup\<close>,
    \<open>clipboard_settle\<close>, \<open>start\<close>, \<open>stop\<close>). \<open>ctrl_step\<close> is the browser
    delivering one event: a DOM event runs its handler once per registration,
    a Guacamole key event runs the installed callback, a timer runs the
    interval callback if it has not been cleared, a clipboard promise settles.
    Asynchronous interleavings are sequences of such events (\<open>ctrl_run\<close>),
    \<open>ctrl_reachable\<close> the states reachable from the constructor.
  \<^item> \<open>Janus\<close>: the stream matcher (\<open>find_stream\<close>, \<open>select_stream\<close>), the
    SDP rewrite \<open>customizeSdp\<close>, and the lifecycle: the record
    \<open>lifecycle\<close> holds the global \<^verbatim>\<open>janusInitialized\<close>, the \<^verbatim>\<open>playing\<close> map,
    one \<open>attempt\<close> per call of \<^verbatim>\<open>startJanus\<close> (its sub-stream, its phase, the
    answers it created), whether the retry interval runs, and the log of
    requests sent to the server. Each callback the code hands to the Janus
    library is one definition (\<open>init_done\<close>, \<open>session_success\<close>,
    \<open>session_error\<close>, \<open>attach_success\<close>, \<open>list_reply\<close>, \<open>watch_ack\<close>,
    \<open>onmessage\<close>, \<open>answer_created\<close>, \<open>onremotestream\<close>, \<open>iceState\<close>, ...),
    and \<open>lc_step\<close> delivers one library event to the attempt it names.
    The spec's per-sub-stream state machine is the graph \<open>session_next\<close>;
    \<open>session_of\<close> reads an attempt's phase as one of its states (failures
    as \<open>Disconnected\<close>, the spec's ``unconnected'') and
    \<open>session_follows\<close> relates two lifecycle states when every attempt
    moved along at most one edge.
  \<^item> \<open>RelaySpec\<close>: the spec's input relay as an abstract machine
    (\<open>relay\<close>, \<open>relay_step\<close>: every input handled only while active, one
    pending move, paste interception) and the refinement mapping
    \<open>ctrl_abs\<close>/\<open>ctrl_abs_event\<close> from the controller's browser-level
    state, which forgets listener registrations, callbacks and timer handles.
  \<^item> \<open>Page\<close>: the query parser (\<open>parse_param\<close>, \<open>parse_query\<close>), the
    presentation flags, the volume (\<open>init_volume\<close>, \<open>audio_volume\<close>),
    \<open>displayPlural\<close>, \<open>iconHtml\<close>, the \<^verbatim>\<open>info\<close> handler \<open>on_info\<close>
    and the toggle click, over the record \<open>page\<close> that extends the
    controller's world with the socket id and the two elements the handler
    writes; \<open>page_step\<close> delivers an \<^verbatim>\<open>info\<close> message, a toggle click, a
    socket (dis)connection, or a browser event for the controller.
  \<^item> \<open>Media\<close>: the media elements (\<open>media\<close>: paused state and pending
    \<^verbatim>\<open>play()\<close> promises of video and audio, each with whether a
    rejection handler is attached to it, the volume, the loading
    indicator, unhandled rejections, reported exceptions), the volume slider
    listener (\<open>on_slider_input\<close>) through the volume setter whose
    \<^verbatim>\<open>TypeError\<close>/\<^verbatim>\<open>IndexSizeError\<close> are \<open>Inl\<close> values, the
    \<^verbatim>\<open>playing\<close> listener (\<open>on_playing\<close>) and the watchdog
    (\<open>watchdog_tick\<close>, \<open>try_play\<close>); \<open>media_step\<close> delivers slider
    input, timer, promise settlement, \<^verbatim>\<open>playing\<close> and pause events.
  \<^item> \<open>DynamicLights\<close>: the sampler over a canvas of RGBA pixels with
    \<open>8 word\<close> channels: \<open>getImageData\<close>, the loop body \<open>avg_add\<close>,
    \<open>getAverageColor\<close> as a \<open>while\<close> loop over (counter, sums),
    \<open>light_blocks\<close>, \<open>getColors\<close>, the 3D width and the interval callback;
    the reference of the loop is the sum of each channel over the block's
    rows and columns of the canvas.
  \<^item> This root theory: the whole page (\<open>app\<close>: the page, the lifecycle, the
    media elements, what page load derived from the query, the Qt host flag,
    the start gate, the colours sent to the host), page load
    (\<open>page_load\<close>), \<open>app_step\<close> over page, lifecycle, gate, media and
    sampler events, and the properties that span the parts.

  \<^bold>\<open>What is proved.\<close>
  \<^item> Controller (C1--C13, \<open>InputController\<close>, \<open>RelaySpec\<close>): the
    invariant \<open>ctrl_inv\<close> in every reachable state (C1): an active controller
    has each pointer handler registered once, its keyboard callbacks installed
    and one running interval, an inactive one nothing and no held keys. Under
    it every browser event is the spec's abstract relay step on the input it
    delivers (C2, refinement). Paste interception is exact on success (C3)
    and silent on failure (C4); a pointer burst is relayed once, as its last
    position, however many firings follow (C5); \<^verbatim>\<open>stop\<close> silences every
    native input (C6); discrete inputs are relayed one for one in order
    (C7); \<^verbatim>\<open>start\<close> is idempotent and registers once (C8); coordinates are
    in the unit square for a pointer inside a non-empty element (C9).
    Findings, each for every state and input: coordinates beyond the
    element exceed 1 and a zero-width element yields Infinity (C10); a
    pending move survives \<^verbatim>\<open>stop\<close> and is sent by the next start's first
    firing (C11); a paste read settling after \<^verbatim>\<open>stop\<close> is still relayed
    (C12); the \<^verbatim>\<open>intervals\<close> array only grows (C13).
  \<^item> Authorisation (C14--C17, \<open>Page\<close>): the controller runs after an
    \<^verbatim>\<open>info\<close> exactly when this socket owns the controls and its password (if
    any) is valid (C14); in every reachable page state the controller's
    invariant holds and a running controller has its toggle enabled and
    labelled \<^verbatim>\<open>Stop controlling\<close> (C15); a toggle click sends
    \<^verbatim>\<open>toggleControls\<close> unless the button was disabled (C16). Finding: after a
    socket disconnect no sequence of events short of a reconnection stops a
    running controller (C17).
  \<^item> Lifecycle (C18--C29, \<open>Janus\<close>): a sub-stream is marked playing only
    after a successful start (C18); every event moves each attempt along one
    edge of the spec's session graph \<open>Idle \<rightarrow> Attaching \<rightarrow> Listing \<rightarrow>
    Watching \<rightarrow> Connected \<rightarrow> Disconnected\<close> (\<open>session_follows\<close>, a
    refinement: C19); no retry once a session is up, even when no stream
    matches (C20, finding); an ICE disconnect detaches and restarts from
    listing (C21); sub-streams are independent (C22); the matcher picks the
    first entry whose lower-cased description contains the lower-cased name
    (C23); the stereo rewrite and when it does not apply (C24, C25);
    answering an offer (C26). Findings: until \<^verbatim>\<open>Janus.init\<close> calls back,
    each 5 s tick calls it twice more (C27); a failed session is retried
    (C28); when one of two attached attempts of a sub-stream disconnects,
    the next tick starts a third beside the survivor (C29).
  \<^item> Configuration and media (C30--C35, \<open>Page\<close>, \<open>Media\<close>): the query
    parser inverts the printer on its fragment (C30) and truncates every
    value at its second \<^verbatim>\<open>=\<close> (C31, finding); for every
    \<^verbatim>\<open>?volume=v\<close> the volume is \<^verbatim>\<open>Number(v)\<close> if in [0, 1] and 1
    otherwise, the 0.7 default applying only to an absent parameter (C32,
    finding); the volume stays in [0, 1] and a slider input sets it or
    reports the setter's exception (C33); no handler is attached to the
    promise \<^verbatim>\<open>play()\<close> returns, so each refused watchdog round adds an
    unhandled rejection (C34, finding); after the \<^verbatim>\<open>playing\<close> event no other
    event touches the loading indicator (C35, finding).
  \<^item> Whole page (C36, here): outside the Qt host nothing is sent to the
    Janus server before the user's click (C36), proved from the invariant
    of the composed page (\<open>app_inv\<close>: each part's invariant, the
    volume bound, and no attempt while the start gate waits).
  \<^item> Sampler (C37--C38, \<open>DynamicLights\<close>): \<^verbatim>\<open>getAverageColor\<close> is the
    floor of each channel's mean over its 10 \<open>\<times>\<close> 10 block of the canvas
    (C37, its loop ending after 100 rounds); the string sent is 24
    comma-separated byte values (C38).
  Lemmas kept beside the claims: the users line, the matcher on the spec's
  example, idempotence of the stereo rewrite, dropped plugin errors, the
  bound of the initial volume, and the invariant of the composed page
  (\<open>app_reachable_app_inv\<close>).

  \<^bold>\<open>Modelling choices.\<close> Keysyms are the integers the Guacamole decoder
  produces. Pixel offsets and element sizes are integers, so finite
  coordinates are rationals, and \<^verbatim>\<open>Number\<close> reads decimal literals exactly
  (JavaScript rounds to the nearest double; no claim depends on rounding).
  The clipboard API's presence and WebRTC support are fixed at construction.
  Every asynchronous completion (a clipboard promise, a Janus callback, a
  socket message, a timer) is an explicit event, so a completion that never
  comes is a run without that event, and the interleavings the code allows
  are the event sequences. Events addressed to an attempt that is not in the
  phase the callback expects leave the state unchanged, as the library never
  calls them there. \<^verbatim>\<open>preventDefault\<close>, \<^verbatim>\<open>focus\<close>, \<^verbatim>\<open>console\<close> output
  and DOM styling change no state the code reads. Pixel channels are
  \<open>8 word\<close> values read with \<open>unat\<close>; the channel sums stay below 25600,
  far inside the doubles' exact integers, so they are \<open>nat\<close>. No fuel is
  needed: every operation is a total function; the one counting loop
  (\<open>getAverageColor\<close>) is a \<open>while\<close> whose termination is proved
  (\<open>while_option_count\<close>: it returns after its 100 rounds), the other
  loops are bounded list traversals (structural recursion), and timers are
  events.

  \<^bold>\<open>Not modelled.\<close> The Janus and Guacamole libraries and socket.io are
  external collaborators, seen only through the events they deliver and the
  requests logged to them, as is the browser (DOM dispatch, the volume
  setter, \<^verbatim>\<open>play()\<close> promises, \<^verbatim>\<open>getImageData\<close>), modelled from the web
  standards. The HTML document is not in the repository: the initial labels
  are parameters of \<open>page_init\<close>, the loading indicator starts as styled,
  and the slider's range is unknown, so its input is any string.
  \<^verbatim>\<open>drawImage\<close> (the browser scaling the frame into the canvas) is
  rendering: the drawn canvas is the sampler's input. The password handed to
  \<^verbatim>\<open>io()\<close> (lines 282--286) and the context-menu suppression (296--298)
  only pass values to the library or the browser.
\<close>

section \<open>The page script as a whole\<close>

text \<open>
  The state of the loaded page: the page proper with its controller
  (\<open>Page.page\<close>), the stream lifecycle (\<open>Janus.lifecycle\<close>), the media
  elements (\<open>Media.media\<close>), what page load derives once from the query
  string, whether the page runs inside the Qt host, whether the start gate
  (the \<^verbatim>\<open>get-user-input\<close> element shown outside the Qt host) still waits
  for its click, and the colour strings sent to the host.
\<close>

record app =
  view :: page
  lc :: lifecycle
  elements :: media
  bodyClass :: "string option"
  bodyFilter :: "string option"
  lightsWidth :: "nat option"
  in_qt :: bool
  gate_shown :: bool
  bridge :: "string list"

text \<open>
  Page load (lines 254--332, 410--425 and 471--472): the query string is
  parsed once, the presentation and the volume are set from it, the
  controller is created, \<^verbatim>\<open>preStartJanus\<close> runs at once inside the Qt
  host (\<^verbatim>\<open>window.qt\<close>) and otherwise waits behind the start gate, and
  with \<^verbatim>\<open>dynamicLights\<close> the sampler starts with its drawing width.
\<close>

definition page_load ::
    "string \<Rightarrow> bool \<Rightarrow> bool \<Rightarrow> bool \<Rightarrow> string \<Rightarrow> string \<Rightarrow> bool \<Rightarrow> app" where
  "page_load search qt api webrtc txt html dis =
     (let qp = parse_query search in
      \<lparr>view = page_init api txt html dis,
       lc = (if qt then preStartJanus (lc_init webrtc) else lc_init webrtc),
       elements = media_init qp, bodyClass = body_class qp, bodyFilter = body_filter qp,
       lightsWidth = (if lights_enabled qp then Some (renderWidth qp) else None),
       in_qt = qt, gate_shown = \<not> qt, bridge = []\<rparr>)"

text \<open>
  An event of the loaded page: one for the page proper, one from the Janus
  library or the retry interval for the lifecycle, or the click on the start
  gate, which removes the gate and calls \<^verbatim>\<open>preStartJanus\<close>, an event of
  the media elements, or the sampler's interval with the canvas it drew
  (the colours reach the host through \<^verbatim>\<open>EventBridge\<close>). The lifecycle's
  \<open>Page_ready\<close> is that call, made by page load or by the gate, never
  delivered from outside.
\<close>

datatype app_event =
    Page_event page_event
  | Janus_event lc_event
  | Gate_click
  | Media_event media_event
  | Lights_fires canvas

fun app_step :: "app \<Rightarrow> app_event \<Rightarrow> app" where
  "app_step s (Page_event e) = s\<lparr>view := page_step (view s) e\<rparr>"
| "app_step s (Janus_event e) = (if e = Page_ready then s else s\<lparr>lc := lc_step (lc s) e\<rparr>)"
| "app_step s Gate_click =
     (if gate_shown s then s\<lparr>gate_shown := False, lc := preStartJanus (lc s)\<rparr> else s)"
| "app_step s (Media_event e) = s\<lparr>elements := media_step (elements s) e\<rparr>"
| "app_step s (Lights_fires cv) =
     (case lightsWidth s of
        None \<Rightarrow> s
      | Some _ \<Rightarrow> (case lights_tick (in_qt s) cv of
                    None \<Rightarrow> s
                  | Some color \<Rightarrow> s\<lparr>bridge := bridge s @ [color]\<rparr>))"

fun app_run :: "app \<Rightarrow> app_event list \<Rightarrow> app" where
  "app_run s [] = s"
| "app_run s (e # es) = app_run (app_step s e) es"

inductive app_reachable :: "app \<Rightarrow> bool" where
  init: "app_reachable (page_load search qt api webrtc txt html dis)"
| step: "app_reachable s \<Longrightarrow> app_reachable (app_step s e)"

text \<open>
  The invariant of the whole page: each part's invariant, the volume bound,
  and while the
  start gate waits the lifecycle has not started (no attempt, no retry
  interval, nothing sent to the signaling server).
\<close>

definition app_inv :: "app \<Rightarrow> bool" where
  "app_inv s \<longleftrightarrow> page_inv (view s) \<and> lc_inv (lc s) \<and>
     0 \<le> volume (elements s) \<and> volume (elements s) \<le> 1 \<and>
     (gate_shown s \<longrightarrow> attempts (lc s) = [] \<and> \<not> retry_armed (lc s) \<and> sig_log (lc s) = [])"

subsection \<open>Lemmas\<close>

lemma lc_step_idle:
  "attempts s = [] \<Longrightarrow> \<not> retry_armed s \<Longrightarrow> e \<noteq> Page_ready \<Longrightarrow> lc_step s e = s"
  by (cases e) (auto simp: lifecycle_defs in_phase_def attached_def is_attached_def Let_def
                     split: option.splits)

lemma lc_inv_preStartJanus: "lc_inv s \<Longrightarrow> lc_inv (preStartJanus s)"
  by (simp add: preStartJanus_def lc_inv_check_both)

lemma app_inv_init: "app_inv (page_load search qt api webrtc txt html dis)"
  using volume_bounded [of "parse_query search"]
  by (simp add: app_inv_def page_load_def Let_def lc_inv_preStartJanus media_init_def)
     (simp add: lc_init_def)

lemma app_inv_step: "app_inv s \<Longrightarrow> app_inv (app_step s e)"
proof (cases e)
  case (Page_event p)
  assume "app_inv s"
  then show ?thesis using Page_event by (simp add: app_inv_def page_inv_step)
next
  case (Janus_event l)
  assume "app_inv s"
  then show ?thesis using Janus_event by (auto simp: app_inv_def lc_step_inv lc_step_idle)
next
  case Gate_click
  assume "app_inv s"
  then show ?thesis using Gate_click by (auto simp: app_inv_def lc_inv_preStartJanus)
next
  case (Media_event m)
  assume "app_inv s"
  then show ?thesis using Media_event media_volume_step [of "elements s" m] by (simp add: app_inv_def)
next
  case (Lights_fires cv)
  assume "app_inv s"
  then show ?thesis using Lights_fires by (auto simp: app_inv_def split: option.splits)
qed

lemma app_reachable_app_inv: "app_reachable s \<Longrightarrow> app_inv s"
  by (induction rule: app_reachable.induct) (auto intro: app_inv_init app_inv_step)

lemma app_reachable_run: "app_reachable s \<Longrightarrow> app_reachable (app_run s es)"
  by (induction es arbitrary: s) (auto intro: app_reachable.step)

section \<open>Properties of the whole page\<close>

text \<open>
  C36. Outside the Qt host nothing is sent to the signaling server before the
  user's click: while the start gate is shown the lifecycle has no attempt
  and an empty signaling log.
\<close>

theorem no_signaling_before_click:
  "app_reachable s \<Longrightarrow> gate_shown s \<Longrightarrow> attempts (lc s) = [] \<and> sig_log (lc s) = []"
  using app_reachable_app_inv by (simp add: app_inv_def)

subsection \<open>Witnesses\<close>

lemma no_signaling_before_click_witness:
  "app_reachable (app_run (page_load '''' False False True [] [] False) [Janus_event Retry_tick]) \<and>
   gate_shown (app_run (page_load '''' False False True [] [] False) [Janus_event Retry_tick]) \<and>
   attempts (lc (app_run (page_load '''' False False True [] [] False) [Janus_event Retry_tick])) = [] \<and>
   sig_log (lc (app_run (page_load '''' False False True [] [] False) [Janus_event Retry_tick])) = []"
proof -
  have r: "app_reachable (app_run (page_load '''' False False True [] [] False) [Janus_event Retry_tick])"
    by (intro app_reachable_run app_reachable.init)
  have g: "gate_shown (app_run (page_load '''' False False True [] [] False) [Janus_event Retry_tick])"
    by (simp add: page_load_def Let_def)
  show ?thesis using no_signaling_before_click [OF r g] r g by blast
qed

end
